theory Spec2Isabelle
  imports Complex_Main "HOL-Library.Word"
begin

section \<open>Strings of UTF-16 code units\<close>

text \<open>
  A JavaScript string is a sequence of 16-bit code units. The source text, the language
  tag and the generated issue ids are such strings. The fixed texts of the rule tables
  (messages, rule names, advisory strings) are ASCII literals and are kept as HOL strings.
\<close>

type_synonym codeunit = "16 word"
type_synonym jsstring = "codeunit list"

definition ustr :: "string \<Rightarrow> jsstring" where
  "ustr s = map of_char s"

definition newline :: codeunit where
  "newline = 0x0A"

text \<open>
  The white space of \<open>\s\<close> and of \<open>String.prototype.trim\<close>: the WhiteSpace and
  LineTerminator code points of ECMAScript.
\<close>

definition isSpace :: "codeunit \<Rightarrow> bool" where
  "isSpace c \<longleftrightarrow>
     c = 0x09 \<or> c = 0x0A \<or> c = 0x0B \<or> c = 0x0C \<or> c = 0x0D \<or> c = 0x20 \<or> c = 0xA0 \<or>
     c = 0x1680 \<or> (0x2000 \<le> c \<and> c \<le> 0x200A) \<or> c = 0x2028 \<or> c = 0x2029 \<or>
     c = 0x202F \<or> c = 0x205F \<or> c = 0x3000 \<or> c = 0xFEFF"

text \<open>\<open>s.split(sep)\<close> for a separator of one code unit; \<open>''.split(sep)\<close> is \<open>['']\<close>.\<close>

fun split :: "codeunit \<Rightarrow> jsstring \<Rightarrow> jsstring list" where
  "split sep [] = [[]]"
| "split sep (x # xs) =
     (if x = sep then [] # split sep xs
      else (case split sep xs of [] \<Rightarrow> [[x]] | l # ls \<Rightarrow> (x # l) # ls))"

definition trim :: "jsstring \<Rightarrow> jsstring" where
  "trim s = rev (dropWhile isSpace (rev (dropWhile isSpace s)))"

fun startsWith :: "jsstring \<Rightarrow> jsstring \<Rightarrow> bool" where
  "startsWith s [] = True"
| "startsWith [] (p # ps) = False"
| "startsWith (x # xs) (p # ps) = (x = p \<and> startsWith xs ps)"

text \<open>
  \<open>s.substring(0, end)\<close>: an undefined \<open>end\<close> stands for the length of the string, and an
  \<open>end\<close> beyond the length is clamped to it.
\<close>

definition substring0 :: "jsstring \<Rightarrow> nat option \<Rightarrow> jsstring" where
  "substring0 s e = (case e of None \<Rightarrow> s | Some k \<Rightarrow> take k s)"

text \<open>
  \<open>s.lastIndexOf(c, pos)\<close> for a one-unit search string: the greatest index \<open>k \<le> pos\<close>
  with \<open>s[k] = c\<close>, the position \<open>pos\<close> itself included, and \<open>-1\<close> when there is none.
\<close>

fun lastIndexOf :: "jsstring \<Rightarrow> codeunit \<Rightarrow> nat \<Rightarrow> int" where
  "lastIndexOf s c 0 = (if s \<noteq> [] \<and> s ! 0 = c then 0 else - 1)"
| "lastIndexOf s c (Suc k) =
     (if Suc k < length s \<and> s ! Suc k = c then int (Suc k) else lastIndexOf s c k)"

text \<open>\<open>xs.slice(0, e)\<close>: a negative \<open>e\<close> counts from the end.\<close>

definition slice0 :: "'a list \<Rightarrow> int \<Rightarrow> 'a list" where
  "slice0 xs e = (if e < 0 then take (nat (int (length xs) + e)) xs else take (nat e) xs)"


section \<open>Regular expressions\<close>

text \<open>
  The patterns of the source are alternatives of sequences of one-unit character classes,
  each taken once, zero or more times (\<open>*\<close>) or one or more times (\<open>+\<close>). The matcher is
  the backtracking matcher of ECMAScript on this fragment: quantifiers are greedy and give
  units back one at a time, alternatives are tried from left to right.
\<close>

datatype cclass =
    Lit codeunit
  | NotLit codeunit
  | Range codeunit codeunit
  | Space

datatype item = One cclass | Star cclass | Plus cclass

record RegExp =
  alternatives :: "item list list"
  global :: bool

fun classHas :: "cclass \<Rightarrow> codeunit \<Rightarrow> bool" where
  "classHas (Lit a) c = (c = a)"
| "classHas (NotLit a) c = (c \<noteq> a)"
| "classHas (Range lo hi) c = (lo \<le> c \<and> c \<le> hi)"
| "classHas Space c = isSpace c"

text \<open>The length of the match of a sequence at the start of a string, if there is one.\<close>

fun matchSeq :: "item list \<Rightarrow> jsstring \<Rightarrow> nat option" where
  "matchSeq [] s = Some 0"
| "matchSeq (One c # is) [] = None"
| "matchSeq (One c # is) (x # xs) =
     (if classHas c x then map_option Suc (matchSeq is xs) else None)"
| "matchSeq (Star c # is) [] = matchSeq is []"
| "matchSeq (Star c # is) (x # xs) =
     (if classHas c x
      then (case matchSeq (Star c # is) xs of
              Some n \<Rightarrow> Some (Suc n)
            | None \<Rightarrow> matchSeq is (x # xs))
      else matchSeq is (x # xs))"
| "matchSeq (Plus c # is) [] = None"
| "matchSeq (Plus c # is) (x # xs) =
     (if classHas c x then map_option Suc (matchSeq (Star c # is) xs) else None)"

fun matchAlt :: "item list list \<Rightarrow> jsstring \<Rightarrow> nat option" where
  "matchAlt [] s = None"
| "matchAlt (a # as) s =
     (case matchSeq a s of Some n \<Rightarrow> Some n | None \<Rightarrow> matchAlt as s)"

text \<open>
  The search of \<open>RegExp.prototype.exec\<close>: the string \<open>s\<close> is the rest of the text from
  offset \<open>i\<close>; the result is the offset and the length of the leftmost match at or after
  \<open>i\<close>. The end of the text is tried too.
\<close>

fun scanFrom :: "item list list \<Rightarrow> jsstring \<Rightarrow> nat \<Rightarrow> (nat \<times> nat) option" where
  "scanFrom p [] i = map_option (Pair i) (matchAlt p [])"
| "scanFrom p (x # xs) i =
     (case matchAlt p (x # xs) of
        Some n \<Rightarrow> Some (i, n)
      | None \<Rightarrow> scanFrom p xs (Suc i))"

definition exec :: "RegExp \<Rightarrow> jsstring \<Rightarrow> nat \<Rightarrow> (nat \<times> nat) option" where
  "exec re s lastIndex =
     (let start = (if global re then lastIndex else 0)
      in if length s < start then None
         else scanFrom (alternatives re) (drop start s) start)"

definition test :: "RegExp \<Rightarrow> jsstring \<Rightarrow> bool" where
  "test re s = (exec re s 0 \<noteq> None)"


lemma scanFrom_offset: "scanFrom p s i = Some (k, n) \<Longrightarrow> i \<le> k"
proof (induction s arbitrary: i)
  case Nil
  then show ?case by auto
next
  case (Cons x xs)
  show ?case
  proof (cases "matchAlt p (x # xs)")
    case None
    with Cons.prems have "scanFrom p xs (Suc i) = Some (k, n)" by simp
    from Cons.IH [OF this] show ?thesis by simp
  next
    case (Some m)
    with Cons.prems show ?thesis by simp
  qed
qed

text \<open>
  The loop of \<open>matchAll\<close> and of \<open>match\<close> with a global pattern: search from \<open>lastIndex\<close>,
  record the match, continue from its end, one unit further after an empty match.
\<close>

function matchAllLoop :: "item list list \<Rightarrow> jsstring \<Rightarrow> nat \<Rightarrow> (nat \<times> nat) list" where
  "matchAllLoop p s lastIndex =
     (if length s < lastIndex then []
      else (case scanFrom p (drop lastIndex s) lastIndex of
              None \<Rightarrow> []
            | Some (k, n) \<Rightarrow>
                (k, n) # matchAllLoop p s (if n = 0 then Suc k else k + n)))"
  by pat_completeness auto
termination
proof (relation "measure (\<lambda>(p, s, lastIndex). Suc (length s) - lastIndex)")
  show "wf (measure (\<lambda>(p, s, lastIndex). Suc (length s) - lastIndex))" by simp
next
  fix p :: "item list list" and s :: jsstring and lastIndex :: nat
    and x2 :: "nat \<times> nat" and k n :: nat
  assume a: "\<not> length s < lastIndex"
    and b: "scanFrom p (drop lastIndex s) lastIndex = Some x2"
    and c: "(k, n) = x2"
  from b c have "lastIndex \<le> k" using scanFrom_offset [of p "drop lastIndex s" lastIndex k n]
    by simp
  with a show "((p, s, if n = 0 then Suc k else k + n), p, s, lastIndex)
      \<in> measure (\<lambda>(p, s, lastIndex). Suc (length s) - lastIndex)"
    by auto
qed

declare matchAllLoop.simps [simp del]

datatype exn = TypeError

text \<open>\<open>String.prototype.matchAll\<close> throws a TypeError for a pattern without the global flag.\<close>

definition matchAll :: "RegExp \<Rightarrow> jsstring \<Rightarrow> exn + (nat \<times> nat) list" where
  "matchAll re s =
     (if global re then Inr (matchAllLoop (alternatives re) s 0) else Inl TypeError)"

text \<open>
  \<open>String.prototype.match\<close>: \<open>null\<close> when nothing matches; for a global pattern the array of
  all matched substrings (it has no \<open>index\<close>), otherwise the result of \<open>exec\<close>, whose
  \<open>index\<close> is the offset of the match and whose length is 1 (no capture groups).
\<close>

datatype MatchResult = Null | ExecResult nat nat | AllMatches "jsstring list"

definition match :: "jsstring \<Rightarrow> RegExp \<Rightarrow> MatchResult" where
  "match s re =
     (if global re
      then (case matchAllLoop (alternatives re) s 0 of
              [] \<Rightarrow> Null
            | m # ms \<Rightarrow> AllMatches (map (\<lambda>(k, n). take n (drop k s)) (m # ms)))
      else (case exec re s 0 of None \<Rightarrow> Null | Some (k, n) \<Rightarrow> ExecResult k n))"

fun matchIndex :: "MatchResult \<Rightarrow> nat option" where
  "matchIndex (ExecResult k n) = Some k"
| "matchIndex _ = None"

fun matchLength :: "MatchResult \<Rightarrow> nat option" where
  "matchLength Null = None"
| "matchLength (ExecResult k n) = Some 1"
| "matchLength (AllMatches ms) = Some (length ms)"


section \<open>The rule tables\<close>

datatype IssueType = Error | Warning | Suggestion

datatype Severity = High | Medium | Low

record Rule =
  pattern :: RegExp
  ruleType :: IssueType
  ruleMessage :: string
  ruleName :: string
  ruleSeverity :: Severity

definition literal :: "string \<Rightarrow> item list" where
  "literal s = map (\<lambda>ch. One (Lit (of_char ch))) s"

definition unit :: "char \<Rightarrow> codeunit" where
  "unit ch = of_char ch"

definition javaRules :: "Rule list" where
  "javaRules =
    [\<lparr>pattern = \<lparr>alternatives =
         [literal ''class'' @ [Plus Space, One (Range (unit CHR ''a'') (unit CHR ''z''))]],
         global = False\<rparr>,
      ruleType = Warning,
      ruleMessage = ''Class names should start with uppercase letter'',
      ruleName = ''naming-convention'',
      ruleSeverity = Medium\<rparr>,
     \<lparr>pattern = \<lparr>alternatives =
         [literal ''public'' @ [Plus Space] @ literal ''static'' @ [Plus Space] @
          literal ''void'' @ [Plus Space] @ literal ''main'' @
          [Star Space, One (Lit (unit CHR ''('')), Star (NotLit (unit CHR '')'')),
           One (Lit (unit CHR '')'')), Star Space, One (Lit (unit CHR ''{'')),
           Star (NotLit (unit CHR ''}'')), One (Lit (unit CHR ''}''))]],
         global = False\<rparr>,
      ruleType = Suggestion,
      ruleMessage = ''Consider extracting logic from main method into separate methods'',
      ruleName = ''method-complexity'',
      ruleSeverity = Low\<rparr>,
     \<lparr>pattern = \<lparr>alternatives =
         [literal ''import'' @
          [Plus Space, Plus (NotLit (unit CHR '';'')), One (Lit (unit CHR '';''))]],
         global = True\<rparr>,
      ruleType = Suggestion,
      ruleMessage = ''Remove unused imports to improve code clarity'',
      ruleName = ''unused-imports'',
      ruleSeverity = Low\<rparr>,
     \<lparr>pattern = \<lparr>alternatives =
         [literal ''for'' @
          [Star Space, One (Lit (unit CHR ''('')), Star (NotLit (unit CHR '')'')),
           One (Lit (unit CHR '')'')), Star Space, One (Lit (unit CHR ''{'')), Star Space] @
          literal ''for'' @
          [Star Space, One (Lit (unit CHR ''('')), Star (NotLit (unit CHR '')'')),
           One (Lit (unit CHR '')''))]],
         global = False\<rparr>,
      ruleType = Warning,
      ruleMessage = ''Nested loops detected - consider optimization'',
      ruleName = ''performance'',
      ruleSeverity = Medium\<rparr>]"

definition pythonRules :: "Rule list" where
  "pythonRules =
    [\<lparr>pattern = \<lparr>alternatives =
         [literal ''def'' @ [Plus Space, One (Range (unit CHR ''A'') (unit CHR ''Z''))]],
         global = False\<rparr>,
      ruleType = Warning,
      ruleMessage = ''Function names should be in snake_case'',
      ruleName = ''naming-convention'',
      ruleSeverity = Medium\<rparr>,
     \<lparr>pattern = \<lparr>alternatives =
         [literal ''import'' @ [Plus Space, One (Lit (unit CHR ''*''))]],
         global = False\<rparr>,
      ruleType = Warning,
      ruleMessage = ''Avoid wildcard imports'',
      ruleName = ''import-style'',
      ruleSeverity = Medium\<rparr>,
     \<lparr>pattern = \<lparr>alternatives = [literal ''except:''], global = False\<rparr>,
      ruleType = Error,
      ruleMessage = ''Bare except clauses should specify exception types'',
      ruleName = ''exception-handling'',
      ruleSeverity = High\<rparr>]"

definition cppRules :: "Rule list" where
  \<open>cppRules =
    [\<lparr>pattern = \<lparr>alternatives =
         [literal ''#include'' @
          [Star Space, One (Lit (unit CHR ''<'')), Plus (NotLit (unit CHR ''>'')),
           One (Lit (unit CHR ''>''))]],
         global = True\<rparr>,
      ruleType = Suggestion,
      ruleMessage = ''Consider using forward declarations to reduce compilation time'',
      ruleName = ''include-optimization'',
      ruleSeverity = Low\<rparr>,
     \<lparr>pattern = \<lparr>alternatives =
         [literal ''using'' @ [Plus Space] @ literal ''namespace'' @ [Plus Space] @
          literal ''std;''],
         global = False\<rparr>,
      ruleType = Warning,
      ruleMessage = ''Avoid "using namespace std" in header files'',
      ruleName = ''namespace-pollution'',
      ruleSeverity = Medium\<rparr>,
     \<lparr>pattern = \<lparr>alternatives = [literal ''new'' @ [Plus Space]], global = False\<rparr>,
      ruleType = Suggestion,
      ruleMessage = ''Consider using smart pointers instead of raw pointers'',
      ruleName = ''memory-management'',
      ruleSeverity = Medium\<rparr>]\<close>

text \<open>The \<open>switch\<close> on the language tag: any other tag leaves the rule list empty.\<close>

definition rulesFor :: "jsstring \<Rightarrow> Rule list" where
  "rulesFor language =
     (if language = ustr ''java'' then javaRules
      else if language = ustr ''python'' then pythonRules
      else if language = ustr ''cpp'' then cppRules
      else [])"

text \<open>The pattern \<open>/if|else|while|for|switch|case/g\<close> of the complexity metric.\<close>

definition branchPattern :: RegExp where
  "branchPattern =
     \<lparr>alternatives = [literal ''if'', literal ''else'', literal ''while'', literal ''for'',
        literal ''switch'', literal ''case''],
      global = True\<rparr>"



section \<open>Numbers\<close>

text \<open>
  The results of \<open>Math.random()\<close> are binary64 numbers that are not negative. Such a number
  is kept as a significand and an exponent of two and stands for
  \<open>mantissa * 2 ^ exponent\<close>; it is a binary64 number when the significand is below
  \<open>2 ^ 53\<close> and the exponent is at least \<open>-1074\<close>, and \<open>Math.random()\<close> returns one
  below 1.
\<close>

record Number =
  mantissa :: nat
  exponent :: int

definition numberValue :: "Number \<Rightarrow> rat" where
  "numberValue d =
     (if 0 \<le> exponent d then of_nat (mantissa d) * 2 ^ nat (exponent d)
      else of_nat (mantissa d) / 2 ^ nat (- exponent d))"

definition unitNumber :: "Number \<Rightarrow> bool" where
  "unitNumber d \<longleftrightarrow> mantissa d < 2 ^ 53 \<and> - 1074 \<le> exponent d \<and> numberValue d < 1"

text \<open>The number of binary digits of a natural number.\<close>

fun bitLength :: "nat \<Rightarrow> nat" where
  "bitLength n = (if n = 0 then 0 else Suc (bitLength (n div 2)))"

declare bitLength.simps [simp del]

text \<open>
  \<open>d * n\<close> for a count \<open>n\<close> (an array length or a small constant, an integer that is a
  binary64 number itself): the exact product \<open>(mantissa * n) * 2 ^ exponent\<close> rounded to the
  nearest binary64 number, a tie going to the even significand. Rounding keeps the 53
  leading binary digits of \<open>mantissa * n\<close>. The exponent does not decrease, so nothing
  underflows, and for \<open>d\<close> below 1 the product is below \<open>n\<close>, so nothing overflows.
\<close>

definition multiply :: "Number \<Rightarrow> nat \<Rightarrow> Number" where
  "multiply d n =
     (let product = mantissa d * n;
          shift = bitLength product - 53;
          quotient = product div 2 ^ shift;
          rest = product mod 2 ^ shift;
          rounded = (if 2 ^ shift < 2 * rest \<or> (2 * rest = 2 ^ shift \<and> odd quotient)
                     then quotient + 1 else quotient)
      in \<lparr>mantissa = rounded, exponent = exponent d + int shift\<rparr>)"

text \<open>\<open>Math.floor\<close>.\<close>

definition floorNumber :: "Number \<Rightarrow> int" where
  "floorNumber d = \<lfloor>numberValue d\<rfloor>"


section \<open>The analyzer\<close>

record Issue =
  issueId :: jsstring
  issueType :: IssueType
  line :: int
  column :: int
  message :: string
  rule :: string
  severity :: Severity

record Metrics =
  linesOfCode :: int
  cyclomaticComplexity :: int
  maintainabilityIndex :: int
  duplicateLines :: int
  testCoverage :: int

record AnalysisResult =
  score :: int
  issues :: "Issue list"
  metrics :: Metrics
  suggestions :: "string list"

text \<open>
  Local names of the source that clash with a field of the result carry a prime.
  Randomness is an input of the model: \<open>random k\<close> is the result of the \<open>k\<close>-th call of
  \<open>Math.random()\<close> during one analysis, a binary64 number that the language promises to
  be at least 0 and below 1; the analyzer threads the number of calls made so far.
  \<open>toString36\<close> stands for \<open>Number.prototype.toString(36)\<close>, whose digits are not modelled.
  The two-second delay before the analysis has no effect on the result and is left out.
\<close>

definition generateRandomId :: "(Number \<Rightarrow> jsstring) \<Rightarrow> Number \<Rightarrow> jsstring" where
  "generateRandomId toString36 r = take 9 (drop 2 (toString36 r))"

text \<open>
  The object literal pushed in both branches of the rule loop (the two literals are the
  same): \<open>index\<close> is \<open>match.index\<close>, undefined for a result without one, and \<open>ident\<close>
  the generated id.
\<close>

definition newIssue :: "Rule \<Rightarrow> jsstring \<Rightarrow> nat option \<Rightarrow> jsstring \<Rightarrow> Issue" where
  "newIssue r code index ident =
     (let lineNumber = int (length (split newline (substring0 code index)))
      in \<lparr>issueId = ident,
          issueType = ruleType r,
          line = lineNumber,
          column = (case index of
                      None \<Rightarrow> 0
                    | Some k \<Rightarrow> if k \<noteq> 0 then int k - lastIndexOf code newline k else 0),
          message = ruleMessage r,
          rule = ruleName r,
          severity = ruleSeverity r\<rparr>)"

text \<open>
  \<open>issues.push\<close>: the state is the array of issues found so far and the number of calls of
  \<open>Math.random()\<close> made so far.
\<close>

definition pushIssue ::
  "(nat \<Rightarrow> Number) \<Rightarrow> (Number \<Rightarrow> jsstring) \<Rightarrow> Rule \<Rightarrow> jsstring \<Rightarrow> nat option \<Rightarrow>
   Issue list \<times> nat \<Rightarrow> Issue list \<times> nat" where
  "pushIssue random toString36 r code index st =
     (case st of (found, calls) \<Rightarrow>
        (found @ [newIssue r code index (generateRandomId toString36 (random calls))],
         Suc calls))"

definition applyRule ::
  "(nat \<Rightarrow> Number) \<Rightarrow> (Number \<Rightarrow> jsstring) \<Rightarrow> jsstring \<Rightarrow> Rule \<Rightarrow>
   Issue list \<times> nat \<Rightarrow> exn + Issue list \<times> nat" where
  "applyRule random toString36 code r st =
     (if global (pattern r)
      then (case matchAll (pattern r) code of
              Inl e \<Rightarrow> Inl e
            | Inr matches \<Rightarrow>
                Inr (fold (\<lambda>m. pushIssue random toString36 r code (Some (fst m))) matches st))
      else if test (pattern r) code
      then (case match code (pattern r) of
              Null \<Rightarrow> Inr st
            | m \<Rightarrow> Inr (pushIssue random toString36 r code (matchIndex m) st))
      else Inr st)"

fun forEachRule ::
  "(nat \<Rightarrow> Number) \<Rightarrow> (Number \<Rightarrow> jsstring) \<Rightarrow> jsstring \<Rightarrow> Rule list \<Rightarrow>
   Issue list \<times> nat \<Rightarrow> exn + Issue list \<times> nat" where
  "forEachRule random toString36 code [] st = Inr st"
| "forEachRule random toString36 code (r # rs) st =
     (case applyRule random toString36 code r st of
        Inl e \<Rightarrow> Inl e
      | Inr st' \<Rightarrow> forEachRule random toString36 code rs st')"

definition suggestionPool :: "string list" where
  "suggestionPool =
     [''Break down large methods into smaller, more focused functions'',
      ''Add unit tests to improve code reliability'',
      ''Use meaningful variable and method names'',
      ''Consider using design patterns for better code structure'',
      ''Add error handling and logging where appropriate'']"

text \<open>
  The body of \<open>analyzeCode\<close> after the rule loop is written as one definition for each of
  its commented parts; \<open>calls\<close> is the number of calls of \<open>Math.random()\<close> made before
  the part.
\<close>

text \<open>The count of the lines that are neither blank nor start with \<open>//\<close>.\<close>

definition countLinesOfCode :: "jsstring list \<Rightarrow> int" where
  "countLinesOfCode lines =
     int (length (filter (\<lambda>l. trim l \<noteq> [] \<and> \<not> startsWith (trim l) (ustr ''//'')) lines))"

text \<open>"Add some random additional issues for demonstration".\<close>

definition additionalIssues ::
  "(nat \<Rightarrow> Number) \<Rightarrow> (Number \<Rightarrow> jsstring) \<Rightarrow> jsstring list \<Rightarrow> nat \<Rightarrow> Issue list" where
  "additionalIssues random toString36 lines calls =
     [\<lparr>issueId = generateRandomId toString36 (random calls),
       issueType = Suggestion,
       line = floorNumber (multiply (random (calls + 1)) (length lines)) + 1,
       column = 5,
       message = ''Consider adding documentation comments'',
       rule = ''documentation'',
       severity = Low\<rparr>,
      \<lparr>issueId = generateRandomId toString36 (random (calls + 2)),
       issueType = Warning,
       line = floorNumber (multiply (random (calls + 3)) (length lines)) + 1,
       column = 10,
       message = ''Variable naming could be more descriptive'',
       rule = ''naming-clarity'',
       severity = Medium\<rparr>]"

text \<open>"Calculate metrics".\<close>

definition calculateMetrics ::
  "(nat \<Rightarrow> Number) \<Rightarrow> jsstring \<Rightarrow> int \<Rightarrow> Issue list \<Rightarrow> nat \<Rightarrow> Metrics" where
  "calculateMetrics random code linesOfCode' issues' calls =
     (let cyclomaticComplexity' =
            max 1 (linesOfCode' div 10 +
                   (case matchLength (match code branchPattern) of
                      None \<Rightarrow> 0
                    | Some len \<Rightarrow> if len \<noteq> 0 then int len else 0));
          maintainabilityIndex' =
            max 10 (100 - int (length issues') * 5 - cyclomaticComplexity' div 2);
          duplicateLines' = floorNumber (multiply (random calls) 5);
          testCoverage' = max 0 (100 - int (length issues') * 3)
      in \<lparr>linesOfCode = linesOfCode',
          cyclomaticComplexity = cyclomaticComplexity',
          maintainabilityIndex = maintainabilityIndex',
          duplicateLines = duplicateLines',
          testCoverage = testCoverage'\<rparr>)"

text \<open>"Calculate score".\<close>

definition calculateScore :: "Issue list \<Rightarrow> int" where
  "calculateScore issues' =
     (let errorPenalty = int (length (filter (\<lambda>i. issueType i = Error) issues')) * 15;
          warningPenalty = int (length (filter (\<lambda>i. issueType i = Warning) issues')) * 8;
          suggestionPenalty = int (length (filter (\<lambda>i. issueType i = Suggestion) issues')) * 3
      in max 0 (min 100 (100 - errorPenalty - warningPenalty - suggestionPenalty)))"

text \<open>"Generate suggestions".\<close>

definition generateSuggestions :: "(nat \<Rightarrow> Number) \<Rightarrow> nat \<Rightarrow> string list" where
  "generateSuggestions random calls = slice0 suggestionPool (floorNumber (multiply (random calls) 3) + 2)"

definition analyzeCode ::
  "(nat \<Rightarrow> Number) \<Rightarrow> (Number \<Rightarrow> jsstring) \<Rightarrow> jsstring \<Rightarrow> jsstring \<Rightarrow> exn + AnalysisResult" where
  "analyzeCode random toString36 code language =
     (let lines = split newline code;
          linesOfCode' = countLinesOfCode lines;
          rules = rulesFor language
      in case forEachRule random toString36 code rules ([], 0) of
           Inl e \<Rightarrow> Inl e
         | Inr (found, calls) \<Rightarrow>
             let issues' = found @ additionalIssues random toString36 lines calls
             in Inr \<lparr>score = calculateScore issues',
                     issues = issues',
                     metrics = calculateMetrics random code linesOfCode' issues' (calls + 4),
                     suggestions = generateSuggestions random (calls + 5)\<rparr>)"


section \<open>The issues of the rule loop, in closed form\<close>

text \<open>
  The rule loop never fails, and its result can be written without the threaded state:
  \<open>matched r code\<close> lists the values of \<open>match.index\<close> for which the body of the loop pushes
  an issue of rule \<open>r\<close>, \<open>pushed\<close> the issues pushed for them, and \<open>catalog\<close> the issues of
  a whole rule list.
\<close>

fun pushed ::
  "(nat \<Rightarrow> Number) \<Rightarrow> (Number \<Rightarrow> jsstring) \<Rightarrow> Rule \<Rightarrow> jsstring \<Rightarrow> nat option list \<Rightarrow> nat \<Rightarrow> Issue list" where
  "pushed random toString36 r code [] calls = []"
| "pushed random toString36 r code (index # rest) calls =
     newIssue r code index (generateRandomId toString36 (random calls)) #
     pushed random toString36 r code rest (Suc calls)"

definition matched :: "Rule \<Rightarrow> jsstring \<Rightarrow> nat option list" where
  "matched r code =
     (if global (pattern r)
      then map (\<lambda>m. Some (fst m)) (matchAllLoop (alternatives (pattern r)) code 0)
      else if test (pattern r) code
      then (case match code (pattern r) of Null \<Rightarrow> [] | m \<Rightarrow> [matchIndex m])
      else [])"

fun catalog ::
  "(nat \<Rightarrow> Number) \<Rightarrow> (Number \<Rightarrow> jsstring) \<Rightarrow> jsstring \<Rightarrow> Rule list \<Rightarrow> nat \<Rightarrow> Issue list" where
  "catalog random toString36 code [] calls = []"
| "catalog random toString36 code (r # rs) calls =
     pushed random toString36 r code (matched r code) calls @
     catalog random toString36 code rs (calls + length (matched r code))"


text \<open>The matches the search finds for a rule, with offset and length.\<close>

definition scanned :: "Rule \<Rightarrow> jsstring \<Rightarrow> (nat \<times> nat) list" where
  "scanned r code =
     (if global (pattern r) then matchAllLoop (alternatives (pattern r)) code 0
      else (case scanFrom (alternatives (pattern r)) code 0 of None \<Rightarrow> [] | Some m \<Rightarrow> [m]))"


section \<open>Notions of the specification\<close>

text \<open>\<open>clamp(x, lo, hi)\<close>: \<open>x\<close> brought into the interval from \<open>lo\<close> to \<open>hi\<close>.\<close>

definition clamp :: "int \<Rightarrow> int \<Rightarrow> int \<Rightarrow> int" where
  "clamp x lo hi = (if x < lo then lo else if hi < x then hi else x)"

text \<open>The number of issues of one kind.\<close>

definition countKind :: "IssueType \<Rightarrow> Issue list \<Rightarrow> int" where
  "countKind k found = int (length (filter (\<lambda>i. issueType i = k) found))"

text \<open>The number of line-break-separated segments of a text.\<close>

definition lineCount :: "jsstring \<Rightarrow> int" where
  "lineCount code = 1 + int (length (filter (\<lambda>c. c = newline) code))"

text \<open>
  An occurrence of a pattern at offset \<open>k\<close> of a text: the pattern matches there. The
  pattern occurs in the text if it does at some offset, the end of the text included.
\<close>

definition occursAt :: "item list list \<Rightarrow> jsstring \<Rightarrow> nat \<Rightarrow> bool" where
  "occursAt p code k = (k \<le> length code \<and> matchAlt p (drop k code) \<noteq> None)"

definition occurs :: "item list list \<Rightarrow> jsstring \<Rightarrow> bool" where
  "occurs p code = list_ex (occursAt p code) [0..<Suc (length code)]"

text \<open>
  The non-overlapping occurrences of a pattern from offset \<open>i\<close> on, read from left to
  right, each with its offset and its length: every one is a non-empty occurrence, it starts
  at or after the end of the one before, and the pattern occurs at no offset in between.
\<close>

fun occurrencesFrom :: "item list list \<Rightarrow> jsstring \<Rightarrow> nat \<Rightarrow> (nat \<times> nat) list \<Rightarrow> bool" where
  "occurrencesFrom p code i [] = list_all (\<lambda>j. \<not> occursAt p code j) [i..<Suc (length code)]"
| "occurrencesFrom p code i ((k, n) # ms) =
     (i \<le> k \<and> k \<le> length code \<and> 0 < n \<and>
      list_all (\<lambda>j. \<not> occursAt p code j) [i..<k] \<and>
      matchAlt p (drop k code) = Some n \<and>
      occurrencesFrom p code (k + n) ms)"

text \<open>The number of line breaks before offset \<open>k\<close> of a text.\<close>

definition lineBreaksBefore :: "jsstring \<Rightarrow> nat \<Rightarrow> nat" where
  "lineBreaksBefore code k = length (filter (\<lambda>c. c = newline) (take k code))"

text \<open>The offset of the nearest line break before offset \<open>k\<close>, and \<open>-1\<close> when none precedes.\<close>

fun precedingBreak :: "jsstring \<Rightarrow> nat \<Rightarrow> int" where
  "precedingBreak code 0 = - 1"
| "precedingBreak code (Suc k) =
     (if k < length code \<and> code ! k = newline then int k else precedingBreak code k)"

text \<open>
  The leftmost occurrence of a pattern alone, with its offset and its length: the list is
  empty when the pattern does not occur.
\<close>

fun firstOccurrence :: "item list list \<Rightarrow> jsstring \<Rightarrow> (nat \<times> nat) list \<Rightarrow> bool" where
  "firstOccurrence p code [] = (\<not> occurs p code)"
| "firstOccurrence p code [(k, n)] =
     (k \<le> length code \<and> list_all (\<lambda>j. \<not> occursAt p code j) [0..<k] \<and>
      matchAlt p (drop k code) = Some n)"
| "firstOccurrence p code (m # m' # ms) = False"

text \<open>
  The matches for which the rule loop makes issues of a rule: all non-overlapping
  occurrences for a global pattern, the leftmost occurrence alone otherwise.
\<close>

definition ruleMatches :: "Rule \<Rightarrow> jsstring \<Rightarrow> (nat \<times> nat) list \<Rightarrow> bool" where
  "ruleMatches r code ms =
     (if global (pattern r) then occurrencesFrom (alternatives (pattern r)) code 0 ms
      else firstOccurrence (alternatives (pattern r)) code ms)"

text \<open>
  Line and column of a match that starts at offset \<open>k\<close>: the line is 1 plus the number of
  line breaks before \<open>k\<close>; the column is 0 at offset 0, and otherwise \<open>k\<close> minus the offset
  of the nearest line break before \<open>k\<close>, taken as \<open>-1\<close> when none precedes.
\<close>

definition positionAt :: "jsstring \<Rightarrow> nat \<Rightarrow> int \<times> int" where
  "positionAt code k =
     (1 + int (lineBreaksBefore code k), if k = 0 then 0 else int k - precedingBreak code k)"

text \<open>A sequence that starts with one literal unit other than the line break.\<close>

fun literalStart :: "item list \<Rightarrow> bool" where
  "literalStart (One (Lit c) # rest) = (c \<noteq> newline)"
| "literalStart _ = False"

text \<open>A fixed random source and a fixed rendering of numbers, for the concrete instances.\<close>

definition fixedRandom :: "nat \<Rightarrow> Number" where
  "fixedRandom k = \<lparr>mantissa = 1, exponent = - 1\<rparr>"

definition fixedString :: "Number \<Rightarrow> jsstring" where
  "fixedString r = ustr ''0.i''"


section \<open>Basic facts\<close>

lemma length_pushed [simp]: "length (pushed R T r code ixs calls) = length ixs"
  by (induction ixs arbitrary: calls) simp_all

lemma fold_pushIssue:
  "fold (\<lambda>m. pushIssue R T r code (g m)) ms (found, calls) =
     (found @ pushed R T r code (map g ms) calls, calls + length ms)"
  by (induction ms arbitrary: found calls) (simp_all add: pushIssue_def)

lemma applyRule_eq:
  "applyRule R T code r (found, calls) =
     Inr (found @ pushed R T r code (matched r code) calls, calls + length (matched r code))"
  by (cases "match code (pattern r)")
     (simp_all add: applyRule_def matchAll_def matched_def fold_pushIssue pushIssue_def)

lemma forEachRule_eq:
  "forEachRule R T code rs (found, calls) =
     Inr (found @ catalog R T code rs calls, calls + length (catalog R T code rs calls))"
  by (induction rs arbitrary: found calls) (simp_all add: applyRule_eq)

lemma length_split: "length (split c s) = Suc (length (filter (\<lambda>x. x = c) s))"
  by (induction s) (auto split: list.splits)

lemma analyzeCode_eq:
  "analyzeCode R T code language =
     Inr \<lparr>score = calculateScore
                    (catalog R T code (rulesFor language) 0 @
                     additionalIssues R T (split newline code)
                       (length (catalog R T code (rulesFor language) 0))),
          issues = catalog R T code (rulesFor language) 0 @
                   additionalIssues R T (split newline code)
                     (length (catalog R T code (rulesFor language) 0)),
          metrics = calculateMetrics R code (countLinesOfCode (split newline code))
                      (catalog R T code (rulesFor language) 0 @
                       additionalIssues R T (split newline code)
                         (length (catalog R T code (rulesFor language) 0)))
                      (length (catalog R T code (rulesFor language) 0) + 4),
          suggestions = generateSuggestions R
                          (length (catalog R T code (rulesFor language) 0) + 5)\<rparr>"
  by (simp add: analyzeCode_def Let_def forEachRule_eq)

lemma analyzeCode_result:
  "\<exists>res. analyzeCode R T code language = Inr res \<and>
     issues res = catalog R T code (rulesFor language) 0 @
           additionalIssues R T (split newline code) (length (catalog R T code (rulesFor language) 0)) \<and>
     score res = calculateScore (issues res) \<and>
     metrics res = calculateMetrics R code (countLinesOfCode (split newline code)) (issues res)
           (length (catalog R T code (rulesFor language) 0) + 4) \<and>
     suggestions res = generateSuggestions R (length (catalog R T code (rulesFor language) 0) + 5)"
  by (simp add: analyzeCode_eq)

section \<open>The rounded product\<close>

lemma bitLength_bounds: "0 < n \<Longrightarrow> 2 ^ (bitLength n - 1) \<le> n \<and> n < 2 ^ bitLength n"
proof (induction n rule: bitLength.induct)
  case (1 n)
  show ?case
  proof (cases "n div 2 = 0")
    case True
    with "1.prems" have "n = 1" by (simp add: div_eq_0_iff) 
    then show ?thesis by (simp add: bitLength.simps)
  next
    case False
    with "1.IH" "1.prems" have ih: "2 ^ (bitLength (n div 2) - 1) \<le> n div 2" "n div 2 < 2 ^ bitLength (n div 2)"
      by simp_all
    from False have pos: "0 < bitLength (n div 2)" by (simp add: bitLength.simps [of "n div 2"])
    have b: "bitLength n = Suc (bitLength (n div 2))" using "1.prems" by (simp add: bitLength.simps [of n])
    from pos have "(2::nat) ^ bitLength (n div 2) = 2 * 2 ^ (bitLength (n div 2) - 1)"
      by (cases "bitLength (n div 2)") simp_all
    with ih(1) have "2 ^ bitLength (n div 2) \<le> 2 * (n div 2)" by simp
    also have "\<dots> \<le> n" by simp
    finally have l: "2 ^ (bitLength n - 1) \<le> n" using b by simp
    from ih(2) have "n < 2 * 2 ^ bitLength (n div 2)" by (simp add: less_mult_imp_div_less)
    with l b show ?thesis by simp
  qed
qed

lemma unitNumber_mantissa:
  assumes "unitNumber d" "0 < mantissa d"
  shows "exponent d < 0 \<and> mantissa d < 2 ^ nat (- exponent d)"
proof (cases "0 \<le> exponent d")
  case True
  from assms(2) have "(1::rat) \<le> of_nat (mantissa d)" by simp
  moreover have "(1::rat) \<le> 2 ^ nat (exponent d)" by simp
  ultimately have "(1::rat) * 1 \<le> of_nat (mantissa d) * 2 ^ nat (exponent d)"
    by (intro mult_mono) simp_all
  with True assms(1) show ?thesis by (simp add: unitNumber_def numberValue_def)
next
  case False
  with assms(1) have "(of_nat (mantissa d) :: rat) / 2 ^ nat (- exponent d) < 1"
    by (simp add: unitNumber_def numberValue_def)
  then have "(of_nat (mantissa d) :: rat) < of_nat (2 ^ nat (- exponent d))" by simp
  then have "mantissa d < 2 ^ nat (- exponent d)" by (simp only: of_nat_less_iff)
  with False show ?thesis by simp
qed

lemma multiply_rounded:
  assumes "0 < n" "mantissa d < 2 ^ 53"
  defines "shift \<equiv> bitLength (mantissa d * n) - 53"
  shows "exponent (multiply d n) = exponent d + int shift"
    and "mantissa (multiply d n) * 2 ^ shift < (mantissa d + 1) * n"
proof -
  define product where "product = mantissa d * n"
  define quotient where "quotient = product div 2 ^ shift"
  define rest where "rest = product mod 2 ^ shift"
  define rounded where "rounded =
    (if 2 ^ shift < 2 * rest \<or> (2 * rest = 2 ^ shift \<and> odd quotient) then quotient + 1 else quotient)"
  have m: "multiply d n = \<lparr>mantissa = rounded, exponent = exponent d + int shift\<rparr>"
    by (simp add: multiply_def Let_def rounded_def quotient_def rest_def product_def shift_def)
  then show "exponent (multiply d n) = exponent d + int shift" by simp
  have p: "product = quotient * 2 ^ shift + rest"
    unfolding quotient_def rest_def by (rule div_mult_mod_eq [symmetric])
  have r: "rest < 2 ^ shift" by (simp add: rest_def)
  have up: "2 * (rounded * 2 ^ shift) \<le> 2 * product + 2 ^ shift"
  proof (cases "2 ^ shift < 2 * rest \<or> (2 * rest = 2 ^ shift \<and> odd quotient)")
    case True
    then have "rounded = quotient + 1" "2 ^ shift \<le> 2 * rest" by (auto simp add: rounded_def)
    with p r show ?thesis by (simp add: algebra_simps)
  next
    case False
    then have "rounded = quotient" by (simp add: rounded_def)
    with p show ?thesis by (simp add: algebra_simps)
  qed
  have "rounded * 2 ^ shift < (mantissa d + 1) * n"
  proof (cases "shift = 0")
    case True
    then have "rest = 0" by (simp add: rest_def)
    with True have "rounded = product" by (simp add: rounded_def quotient_def)
    with True assms(1) show ?thesis by (simp add: product_def)
  next
    case False
    then have l: "53 < bitLength product" by (simp add: shift_def product_def)
    then have "0 < product" by (cases "product = 0") (simp_all add: bitLength.simps [of 0])
    from bitLength_bounds [OF this] have "2 ^ (bitLength product - 1) \<le> product" by simp
    moreover from l have "bitLength product - 1 = shift + 52" by (simp add: shift_def product_def)
    ultimately have "2 ^ shift * 2 ^ 52 \<le> product" by (simp add: power_add)
    also from assms have "product < 2 ^ 53 * n" by (simp add: product_def)
    finally have "2 ^ shift * (2::nat) ^ 52 < (2 * n) * 2 ^ 52" by simp
    then have "(2::nat) ^ shift < 2 * n" by (simp only: mult_less_cancel2)
    with up have "2 * (rounded * 2 ^ shift) < 2 * product + 2 * n" by simp
    then show ?thesis by (simp add: product_def)
  qed
  with m show "mantissa (multiply d n) * 2 ^ shift < (mantissa d + 1) * n" by simp
qed

lemma floor_multiply:
  assumes "unitNumber d" "0 < n"
  shows "0 \<le> floorNumber (multiply d n) \<and> floorNumber (multiply d n) < int n"
proof -
  define shift where "shift = bitLength (mantissa d * n) - 53"
  define r where "r = mantissa (multiply d n)"
  from assms(1) have m: "mantissa d < 2 ^ 53" by (simp add: unitNumber_def)
  from multiply_rounded [OF assms(2) m]
  have e: "exponent (multiply d n) = exponent d + int shift"
    and b: "r * 2 ^ shift < (mantissa d + 1) * n" by (simp_all add: shift_def r_def)
  have nonneg: "0 \<le> numberValue (multiply d n)" by (simp add: numberValue_def)
  have less: "numberValue (multiply d n) < of_nat n"
  proof (cases "mantissa d = 0")
    case True
    with b have "r * 2 ^ shift < n" by simp
    moreover from True have "shift = 0" by (simp add: shift_def bitLength.simps [of 0])
    ultimately have "r = 0" using True
      by (simp add: r_def multiply_def Let_def bitLength.simps [of 0])
    with assms(2) show ?thesis by (simp add: numberValue_def r_def)
  next
    case False
    then have "0 < mantissa d" by simp
    define k where "k = nat (- exponent d)"
    from unitNumber_mantissa [OF assms(1) \<open>0 < mantissa d\<close>]
    have k: "exponent d = - int k" "0 < k" "mantissa d < 2 ^ k" by (simp_all add: k_def)
    from k(3) have "mantissa d + 1 \<le> 2 ^ k" by simp
    then have "(mantissa d + 1) * n \<le> 2 ^ k * n" by (rule mult_le_mono1)
    with b have s: "r * 2 ^ shift < n * 2 ^ k" by (simp add: mult.commute)
    show ?thesis
    proof (cases "k \<le> shift")
      case True
      then obtain j where j: "shift = k + j" by (auto simp add: le_iff_add)
      with s have "r * 2 ^ j * 2 ^ k < n * 2 ^ k" by (simp add: power_add mult.assoc mult.left_commute)
      then have "r * 2 ^ j < n" by (simp only: mult_less_cancel2)
      then have "(of_nat (r * 2 ^ j) :: rat) < of_nat n" by (simp only: of_nat_less_iff)
      with e k(1) j show ?thesis by (simp add: numberValue_def r_def)
    next
      case False
      then obtain j where j: "k = shift + j" "0 < j" by (auto simp add: not_le less_iff_Suc_add)
      with s have "r * 2 ^ shift < (n * 2 ^ j) * 2 ^ shift"
        by (simp add: power_add mult.assoc mult.left_commute)
      then have "r < n * 2 ^ j" by (simp only: mult_less_cancel2)
      then have "(of_nat r :: rat) < of_nat (n * 2 ^ j)" by (simp only: of_nat_less_iff)
      then have "(of_nat r :: rat) / 2 ^ j < of_nat n" by (simp add: divide_less_eq)
      with e k(1) j show ?thesis by (simp add: numberValue_def r_def)
    qed
  qed
  from nonneg have "0 \<le> floorNumber (multiply d n)" by (simp add: floorNumber_def)
  moreover from less have "floorNumber (multiply d n) < int n"
    by (simp add: floorNumber_def floor_less_iff)
  ultimately show ?thesis by simp
qed

lemma bitLength_0: "bitLength 0 = 0"
  by (simp add: bitLength.simps)

lemma bitLength_Suc_0: "bitLength (Suc 0) = Suc 0"
  by (simp add: bitLength.simps)

lemma bitLength_numeral: "bitLength (numeral k) = Suc (bitLength (numeral k div 2))"
  by (subst bitLength.simps) simp

lemma bitLength_tie_line: "bitLength 45035996273704956 = 56"
  by (simp add: bitLength_0 bitLength_Suc_0 bitLength_numeral)

text \<open>
  Two products that the rounding carries to the next integer: \<open>0.8333333333333333 * 6\<close> is
  \<open>5\<close> and \<open>0.6666666666666666 * 3\<close> is \<open>2\<close>, where the exact products are below.
\<close>

lemma multiply_tie_line:
  "unitNumber \<lparr>mantissa = 7505999378950826, exponent = - 53\<rparr> \<and>
   multiply \<lparr>mantissa = 7505999378950826, exponent = - 53\<rparr> 6 =
     \<lparr>mantissa = 5629499534213120, exponent = - 50\<rparr> \<and>
   floorNumber (multiply \<lparr>mantissa = 7505999378950826, exponent = - 53\<rparr> 6) = 5"
  by (simp add: unitNumber_def numberValue_def floorNumber_def multiply_def Let_def
      bitLength_tie_line)

lemma bitLength_tie_suggestions: "bitLength 18014398509481983 = 54"
  by (simp add: bitLength_0 bitLength_Suc_0 bitLength_numeral)

lemma multiply_tie_suggestions:
  "unitNumber \<lparr>mantissa = 6004799503160661, exponent = - 53\<rparr> \<and>
   multiply \<lparr>mantissa = 6004799503160661, exponent = - 53\<rparr> 3 =
     \<lparr>mantissa = 9007199254740992, exponent = - 52\<rparr> \<and>
   floorNumber (multiply \<lparr>mantissa = 6004799503160661, exponent = - 53\<rparr> 3) = 2"
  by (simp add: unitNumber_def numberValue_def floorNumber_def multiply_def Let_def
      bitLength_tie_suggestions)


section \<open>Score, metrics and rule selection\<close>

lemma calculateScore_clamp:
  "calculateScore found =
     clamp (100 - 15 * countKind Error found - 8 * countKind Warning found
            - 3 * countKind Suggestion found) 0 100"
  by (simp add: calculateScore_def Let_def clamp_def countKind_def)

lemma clamp_range: "0 \<le> clamp x 0 100 \<and> clamp x 0 100 \<le> 100"
  by (simp add: clamp_def)

lemma matchSeq_literal_Nil: "s \<noteq> [] \<Longrightarrow> matchSeq (literal s) [] = None"
  by (cases s) (simp_all add: literal_def)

lemma match_branch_empty: "match [] branchPattern = Null"
  by (simp add: match_def branchPattern_def matchAllLoop.simps matchSeq_literal_Nil)

lemma countLinesOfCode_empty: "countLinesOfCode (split newline []) = 0"
  by (simp add: countLinesOfCode_def trim_def)

lemma calculateMetrics_empty:
  "linesOfCode (calculateMetrics R [] 0 found calls) = 0 \<and>
   cyclomaticComplexity (calculateMetrics R [] 0 found calls) = 1"
  by (simp add: calculateMetrics_def Let_def match_branch_empty)

lemma rulesFor_unrecognized:
  "language \<noteq> ustr ''java'' \<Longrightarrow> language \<noteq> ustr ''python'' \<Longrightarrow> language \<noteq> ustr ''cpp'' \<Longrightarrow>
   rulesFor language = []"
  by (simp add: rulesFor_def)


section \<open>The analysis never fails\<close>

text \<open>
  Claim C9: for every source text, the empty one included, and every language tag the
  analysis completes and returns a result; no path raises an error. The only operation of
  the body that can throw is \<open>matchAll\<close>, and it is reached for global patterns only; all
  loops are total functions.
\<close>

theorem analyzeCode_never_fails: "\<exists>res. analyzeCode R T code language = Inr res"
  by (simp only: analyzeCode_eq sum.inject simp_thms)


section \<open>The score\<close>

text \<open>
  Claim C2: the score of the result is
  \<open>clamp(100 - 15 * errors - 8 * warnings - 3 * suggestions, 0, 100)\<close>, the counts taken over
  the kinds of all issues of the result, the two additional ones included; so the score is
  an integer between 0 and 100.
\<close>

theorem score_clamped:
  "\<exists>res. analyzeCode R T code language = Inr res \<and>
     score res =
       clamp (100 - 15 * countKind Error (issues res) - 8 * countKind Warning (issues res)
              - 3 * countKind Suggestion (issues res)) 0 100 \<and>
     0 \<le> score res \<and> score res \<le> 100"
proof -
  from analyzeCode_result [of R T code language] obtain res where
    r: "analyzeCode R T code language = Inr res" and
    s: "score res = calculateScore (issues res)"
    by (elim exE conjE)
  from s have c: "score res =
       clamp (100 - 15 * countKind Error (issues res) - 8 * countKind Warning (issues res)
              - 3 * countKind Suggestion (issues res)) 0 100"
    by (simp only: calculateScore_clamp)
  then have "0 \<le> score res \<and> score res \<le> 100" by (simp only: clamp_range)
  with r c show ?thesis by (intro exI [of _ res] conjI) simp_all
qed


section \<open>The empty source text\<close>

text \<open>
  Claim C6: for the empty source text the metrics have \<open>linesOfCode = 0\<close> and
  \<open>cyclomaticComplexity = 1\<close>.
\<close>

theorem empty_source_metrics:
  "\<exists>res. analyzeCode R T [] language = Inr res \<and>
     linesOfCode (metrics res) = 0 \<and> cyclomaticComplexity (metrics res) = 1"
proof -
  from analyzeCode_result [of R T "[]" language] obtain res where
    r: "analyzeCode R T [] language = Inr res" and
    m: "metrics res = calculateMetrics R [] (countLinesOfCode (split newline [])) (issues res)
           (length (catalog R T [] (rulesFor language) 0) + 4)"
    by (elim exE conjE)
  from m have "metrics res = calculateMetrics R [] 0 (issues res)
           (length (catalog R T [] (rulesFor language) 0) + 4)"
    by (simp only: countLinesOfCode_empty)
  then have "linesOfCode (metrics res) = 0 \<and> cyclomaticComplexity (metrics res) = 1"
    by (simp only: calculateMetrics_empty)
  with r show ?thesis by (intro exI [of _ res] conjI) simp_all
qed


section \<open>Unrecognized languages\<close>

text \<open>
  Claim C7: for a language tag other than the three supported ones the selected rule list
  is empty, the rule loop finds nothing, the analysis returns a result, and its issues are
  the two additional ones only: no issue comes from the rule tables.
\<close>

theorem unrecognized_language:
  assumes "language \<noteq> ustr ''java''" "language \<noteq> ustr ''python''" "language \<noteq> ustr ''cpp''"
  shows "rulesFor language = [] \<and>
     forEachRule R T code (rulesFor language) ([], 0) = Inr ([], 0) \<and>
     (\<exists>res. analyzeCode R T code language = Inr res \<and>
        length (issues res) = 2 \<and>
        map rule (issues res) = [''documentation'', ''naming-clarity''] \<and>
        map issueType (issues res) = [Suggestion, Warning])"
proof -
  have e: "rulesFor language = []" using assms by (rule rulesFor_unrecognized)
  from analyzeCode_result [of R T code language] obtain res where
    r: "analyzeCode R T code language = Inr res" and
    i: "issues res = catalog R T code (rulesFor language) 0 @
           additionalIssues R T (split newline code) (length (catalog R T code (rulesFor language) 0))"
    by (elim exE conjE)
  from i e have "issues res = additionalIssues R T (split newline code) 0" by simp
  then have "length (issues res) = 2 \<and>
        map rule (issues res) = [''documentation'', ''naming-clarity''] \<and>
        map issueType (issues res) = [Suggestion, Warning]"
    by (simp add: additionalIssues_def)
  with r have "\<exists>res. analyzeCode R T code language = Inr res \<and>
        length (issues res) = 2 \<and>
        map rule (issues res) = [''documentation'', ''naming-clarity''] \<and>
        map issueType (issues res) = [Suggestion, Warning]"
    by (intro exI [of _ res] conjI) simp_all
  moreover from e have "forEachRule R T code (rulesFor language) ([], 0) = Inr ([], 0)" by simp
  ultimately show ?thesis using e by (intro conjI)
qed

theorem unrecognized_language_witness:
  "ustr ''rust'' \<noteq> ustr ''java'' \<and> ustr ''rust'' \<noteq> ustr ''python'' \<and> ustr ''rust'' \<noteq> ustr ''cpp'' \<and>
   rulesFor (ustr ''rust'') = [] \<and>
   forEachRule fixedRandom fixedString (ustr ''fn main() {}'') (rulesFor (ustr ''rust'')) ([], 0) =
     Inr ([], 0) \<and>
   (\<exists>res. analyzeCode fixedRandom fixedString (ustr ''fn main() {}'') (ustr ''rust'') = Inr res \<and>
      length (issues res) = 2 \<and>
      map rule (issues res) = [''documentation'', ''naming-clarity''] \<and>
      map issueType (issues res) = [Suggestion, Warning])"
proof -
  have a: "ustr ''rust'' \<noteq> ustr ''java''" and b: "ustr ''rust'' \<noteq> ustr ''python''"
    and c: "ustr ''rust'' \<noteq> ustr ''cpp''"
    by (simp_all add: ustr_def)
  from unrecognized_language [OF a b c, of fixedRandom fixedString "ustr ''fn main() {}''"] a b c
  show ?thesis by (intro conjI) simp_all
qed


section \<open>The advisory strings\<close>

lemma generateSuggestions_prefix:
  assumes "unitNumber (R k)"
  shows "generateSuggestions R k =
           take (nat (floorNumber (multiply (R k) 3) + 2)) suggestionPool \<and>
         2 \<le> nat (floorNumber (multiply (R k) 3) + 2) \<and>
         nat (floorNumber (multiply (R k) 3) + 2) \<le> 4"
proof -
  define e where "e = floorNumber (multiply (R k) 3)"
  from floor_multiply [OF assms, of 3] have "0 \<le> e" "e < 3" by (simp_all add: e_def)
  then have "slice0 suggestionPool (e + 2) = take (nat (e + 2)) suggestionPool \<and>
         2 \<le> nat (e + 2) \<and> nat (e + 2) \<le> 4"
    by (auto simp add: slice0_def)
  then show ?thesis by (simp only: generateSuggestions_def e_def)
qed

lemma length_suggestionPool: "length suggestionPool = 5"
  by (simp add: suggestionPool_def)

text \<open>
  Claim C8: the suggestions of the result are a prefix of the fixed pool of five advisory
  strings, in the order of the pool, of a length from 2 to 4. The random numbers are
  those of \<open>Math.random()\<close>, binary64 numbers that are at least 0 and less than 1, and
  the product with 3 is the rounded one.
\<close>

theorem suggestions_prefix:
  assumes "\<forall>k. unitNumber (R k)"
  shows "\<exists>res n. analyzeCode R T code language = Inr res \<and>
     suggestions res = take n suggestionPool \<and> 2 \<le> n \<and> n \<le> 4 \<and>
     length (suggestions res) = n \<and> length suggestionPool = 5"
proof -
  define k where "k = length (catalog R T code (rulesFor language) 0) + 5"
  define n where "n = nat (floorNumber (multiply (R k) 3) + 2)"
  from analyzeCode_result [of R T code language] obtain res where
    r: "analyzeCode R T code language = Inr res" and
    s: "suggestions res = generateSuggestions R k"
    unfolding k_def by (elim exE conjE)
  have "unitNumber (R k)" using assms by simp
  from generateSuggestions_prefix [of R k, OF this] s
  have t: "suggestions res = take n suggestionPool" and n: "2 \<le> n" "n \<le> 4"
    by (simp_all add: n_def)
  from t n have l: "length (suggestions res) = n" by (simp add: length_suggestionPool)
  from r t n l length_suggestionPool show ?thesis
    by (intro exI [of _ res] exI [of _ n] conjI)
qed

theorem suggestions_prefix_witness:
  "(\<forall>k. unitNumber (fixedRandom k)) \<and>
   (\<exists>res n. analyzeCode fixedRandom fixedString (ustr ''class a {}'') (ustr ''java'') = Inr res \<and>
      suggestions res = take n suggestionPool \<and> 2 \<le> n \<and> n \<le> 4 \<and>
      length (suggestions res) = n \<and> length suggestionPool = 5)"
proof
  show h: "\<forall>k. unitNumber (fixedRandom k)"
    by (simp add: fixedRandom_def unitNumber_def numberValue_def)
  from suggestions_prefix [OF h, of fixedString "ustr ''class a {}''" "ustr ''java''"]
  show "\<exists>res n. analyzeCode fixedRandom fixedString (ustr ''class a {}'') (ustr ''java'') = Inr res \<and>
      suggestions res = take n suggestionPool \<and> 2 \<le> n \<and> n \<le> 4 \<and>
      length (suggestions res) = n \<and> length suggestionPool = 5" .
qed

section \<open>The lines of the issues\<close>

lemma filler_line:
  assumes "unitNumber d"
  shows "1 \<le> floorNumber (multiply d (length (split newline code))) + 1 \<and>
         floorNumber (multiply d (length (split newline code))) + 1 \<le> lineCount code"
proof -
  define n where "n = length (split newline code)"
  have n: "0 < n" "int n = lineCount code" by (simp_all add: n_def length_split lineCount_def)
  define e where "e = floorNumber (multiply d n)"
  from floor_multiply [OF assms n(1)] have "0 \<le> e" "e < int n" by (simp_all only: e_def)
  with n(2) have "1 \<le> e + 1 \<and> e + 1 \<le> lineCount code" by simp
  then show ?thesis by (simp only: e_def n_def)
qed

lemma additionalIssues_line:
  assumes "\<forall>k. unitNumber (R k)" "i \<in> set (additionalIssues R T (split newline code) calls)"
  shows "1 \<le> line i \<and> line i \<le> lineCount code"
proof -
  have a: "unitNumber (R (calls + 1))" and b: "unitNumber (R (calls + 3))"
    using assms(1) by simp_all
  from assms(2) filler_line [OF a, of code] filler_line [OF b, of code] show ?thesis
    by (auto simp add: additionalIssues_def)
qed

lemma count_take_le:
  "length (filter P (take k xs)) \<le> length (filter P xs)"
proof -
  have "length (filter P (take k xs @ drop k xs)) =
        length (filter P (take k xs)) + length (filter P (drop k xs))"
    by (simp only: filter_append length_append)
  then show ?thesis by simp
qed

lemma newIssue_line:
  "1 \<le> line (newIssue r code index ident) \<and> line (newIssue r code index ident) \<le> lineCount code"
  using count_take_le [of "\<lambda>c. c = newline" _ code]
  by (cases index) (simp_all add: newIssue_def substring0_def length_split lineCount_def)

lemma pushed_line:
  "i \<in> set (pushed R T r code ixs calls) \<Longrightarrow> 1 \<le> line i \<and> line i \<le> lineCount code"
  by (induction ixs arbitrary: calls) (auto simp add: newIssue_line)

lemma catalog_line:
  "i \<in> set (catalog R T code rs calls) \<Longrightarrow> 1 \<le> line i \<and> line i \<le> lineCount code"
  by (induction rs arbitrary: calls) (auto dest: pushed_line)

text \<open>
  Claim C5: for every source text and language, the line of every issue of the result,
  from the rule tables or additional, lies between 1 and the number of
  line-break-separated segments of the text. The random numbers are binary64 numbers that
  are at least 0 and less than 1, and the product with the number of lines is the
  rounded one.
\<close>

theorem issue_lines_in_range:
  assumes "\<forall>k. unitNumber (R k)"
  shows "\<exists>res. analyzeCode R T code language = Inr res \<and>
     (\<forall>i \<in> set (issues res). 1 \<le> line i \<and> line i \<le> lineCount code)"
proof -
  define found where "found = catalog R T code (rulesFor language) 0"
  from analyzeCode_result [of R T code language] obtain res where
    r: "analyzeCode R T code language = Inr res" and
    i: "issues res = found @ additionalIssues R T (split newline code) (length found)"
    unfolding found_def by (elim exE conjE)
  have "1 \<le> line i \<and> line i \<le> lineCount code" if "i \<in> set (issues res)" for i
  proof -
    from that i have "i \<in> set found \<or> i \<in> set (additionalIssues R T (split newline code) (length found))"
      by simp
    then show ?thesis
    proof
      assume "i \<in> set found"
      then show ?thesis unfolding found_def by (rule catalog_line)
    next
      assume "i \<in> set (additionalIssues R T (split newline code) (length found))"
      with assms show ?thesis by (rule additionalIssues_line)
    qed
  qed
  then have "\<forall>i \<in> set (issues res). 1 \<le> line i \<and> line i \<le> lineCount code" by simp
  with r show ?thesis by (intro exI [of _ res] conjI)
qed

theorem issue_lines_in_range_witness:
  "(\<forall>k. unitNumber (fixedRandom k)) \<and>
   (\<exists>res. analyzeCode fixedRandom fixedString (ustr ''class a {}'') (ustr ''java'') = Inr res \<and>
      (\<forall>i \<in> set (issues res). 1 \<le> line i \<and> line i \<le> lineCount (ustr ''class a {}'')))"
proof
  show h: "\<forall>k. unitNumber (fixedRandom k)"
    by (simp add: fixedRandom_def unitNumber_def numberValue_def)
  from issue_lines_in_range [OF h, of fixedString "ustr ''class a {}''" "ustr ''java''"]
  show "\<exists>res. analyzeCode fixedRandom fixedString (ustr ''class a {}'') (ustr ''java'') = Inr res \<and>
      (\<forall>i \<in> set (issues res). 1 \<le> line i \<and> line i \<le> lineCount (ustr ''class a {}''))" .
qed

section \<open>The two additional issues\<close>

lemma calculateScore_additional:
  "calculateScore (found @ additionalIssues R T ls calls) \<le> 89"
  by (simp add: calculateScore_def Let_def additionalIssues_def)

text \<open>
  Claim C10: the issues of the result are those of the rule loop followed by exactly two
  additional ones, a suggestion with rule name \<open>documentation\<close> and a warning with rule name
  \<open>naming-clarity\<close>; so there are at least two issues, and as these two cost 3 + 8 points
  the score is at most 89 and never 100.
\<close>

theorem filler_issues:
  "\<exists>res found calls f1 f2.
     forEachRule R T code (rulesFor language) ([], 0) = Inr (found, calls) \<and>
     analyzeCode R T code language = Inr res \<and>
     issues res = found @ [f1, f2] \<and>
     issueType f1 = Suggestion \<and> rule f1 = ''documentation'' \<and>
     issueType f2 = Warning \<and> rule f2 = ''naming-clarity'' \<and>
     2 \<le> length (issues res) \<and> score res \<le> 89 \<and> score res \<noteq> 100"
proof -
  define found where "found = catalog R T code (rulesFor language) 0"
  from analyzeCode_result [of R T code language] obtain res where
    r: "analyzeCode R T code language = Inr res" and
    i: "issues res = found @ additionalIssues R T (split newline code) (length found)" and
    s: "score res = calculateScore (issues res)"
    unfolding found_def by (elim exE conjE)
  obtain f1 f2 where f: "additionalIssues R T (split newline code) (length found) = [f1, f2]"
    and k: "issueType f1 = Suggestion" "rule f1 = ''documentation''"
      "issueType f2 = Warning" "rule f2 = ''naming-clarity''"
    by (simp add: additionalIssues_def)
  have l: "forEachRule R T code (rulesFor language) ([], 0) = Inr (found, length found)"
    by (simp add: forEachRule_eq found_def)
  from s i have "score res \<le> 89" by (simp only: calculateScore_additional)
  then have "score res \<le> 89 \<and> score res \<noteq> 100" by simp
  moreover from i f have "issues res = found @ [f1, f2]" by simp
  moreover from this have "2 \<le> length (issues res)" by simp
  ultimately show ?thesis using r l k
    by (intro exI [of _ res] exI [of _ found] exI [of _ "length found"] exI [of _ f1] exI [of _ f2])
       simp
qed


section \<open>Searching a text\<close>

lemma scanFrom_None:
  "scanFrom p s i = None \<longleftrightarrow> (\<forall>j \<le> length s. matchAlt p (drop j s) = None)"
proof (induction s arbitrary: i)
  case Nil
  show ?case by simp
next
  case (Cons x xs)
  have "(\<forall>j \<le> length (x # xs). matchAlt p (drop j (x # xs)) = None) \<longleftrightarrow>
        matchAlt p (x # xs) = None \<and> (\<forall>j \<le> length xs. matchAlt p (drop j xs) = None)"
    (is "?l \<longleftrightarrow> ?r")
  proof
    assume l: ?l
    have "matchAlt p (x # xs) = None" using l [rule_format, of 0] by simp
    moreover have "matchAlt p (drop j xs) = None" if "j \<le> length xs" for j
      using l [rule_format, of "Suc j"] that by simp
    ultimately show ?r by simp
  next
    assume r: ?r
    show ?l
    proof (intro allI impI)
      fix j assume "j \<le> length (x # xs)"
      with r show "matchAlt p (drop j (x # xs)) = None" by (cases j) simp_all
    qed
  qed
  with Cons.IH [of "Suc i"] show ?case by (simp split: option.split)
qed

lemma scanFrom_Some:
  "scanFrom p s i = Some (k, n) \<longleftrightarrow>
     (\<exists>j \<le> length s. k = i + j \<and> matchAlt p (drop j s) = Some n \<and>
        (\<forall>j' < j. matchAlt p (drop j' s) = None))"
proof (induction s arbitrary: i)
  case Nil
  show ?case by auto
next
  case (Cons x xs)
  show ?case
  proof (cases "matchAlt p (x # xs)")
    case (Some m)
    have "(\<exists>j \<le> length (x # xs). k = i + j \<and> matchAlt p (drop j (x # xs)) = Some n \<and>
        (\<forall>j' < j. matchAlt p (drop j' (x # xs)) = None)) \<longleftrightarrow> (k = i \<and> m = n)"
      (is "?l \<longleftrightarrow> ?r")
    proof
      assume ?l
      then obtain j where j: "k = i + j" "matchAlt p (drop j (x # xs)) = Some n"
        "\<forall>j' < j. matchAlt p (drop j' (x # xs)) = None" by auto
      have "j = 0"
      proof (rule ccontr)
        assume "j \<noteq> 0"
        then have "matchAlt p (drop 0 (x # xs)) = None" using j(3) by blast
        with Some show False by simp
      qed
      with j Some show ?r by simp
    next
      assume ?r
      with Some show ?l by (intro exI [of _ 0]) simp
    qed
    with Some show ?thesis by auto
  next
    case None
    have "(\<exists>j \<le> length (x # xs). k = i + j \<and> matchAlt p (drop j (x # xs)) = Some n \<and>
        (\<forall>j' < j. matchAlt p (drop j' (x # xs)) = None)) \<longleftrightarrow>
       (\<exists>j \<le> length xs. k = Suc i + j \<and> matchAlt p (drop j xs) = Some n \<and>
        (\<forall>j' < j. matchAlt p (drop j' xs) = None))"
      (is "?l \<longleftrightarrow> ?r")
    proof
      assume ?l
      then obtain j where j: "j \<le> length (x # xs)" "k = i + j"
        "matchAlt p (drop j (x # xs)) = Some n"
        "\<forall>j' < j. matchAlt p (drop j' (x # xs)) = None" by auto
      from j(3) None obtain j0 where j0: "j = Suc j0" by (cases j) simp_all
      have "\<forall>j' < j0. matchAlt p (drop j' xs) = None"
      proof (intro allI impI)
        fix j' assume "j' < j0"
        then have "Suc j' < j" using j0 by simp
        from j(4) [rule_format, OF this] show "matchAlt p (drop j' xs) = None" by simp
      qed
      with j j0 show ?r by (intro exI [of _ j0]) simp
    next
      assume ?r
      then obtain j where j: "j \<le> length xs" "k = Suc i + j"
        "matchAlt p (drop j xs) = Some n"
        "\<forall>j' < j. matchAlt p (drop j' xs) = None" by auto
      have "\<forall>j' < Suc j. matchAlt p (drop j' (x # xs)) = None"
      proof (intro allI impI)
        fix j' assume "j' < Suc j"
        with j(4) None show "matchAlt p (drop j' (x # xs)) = None" by (cases j') simp_all
      qed
      with j show ?l by (intro exI [of _ "Suc j"]) simp
    qed
    with None Cons.IH [of "Suc i"] show ?thesis by simp
  qed
qed

lemma exec_None:
  "\<not> global re \<Longrightarrow> exec re code li = None \<longleftrightarrow> \<not> occurs (alternatives re) code"
  by (auto simp add: exec_def scanFrom_None occurs_def occursAt_def list_ex_iff less_Suc_eq_le)

lemma exec_Some:
  "\<not> global re \<Longrightarrow> exec re code li = Some (k, n) \<Longrightarrow>
     k \<le> length code \<and> matchAlt (alternatives re) (drop k code) = Some n"
  by (auto simp add: exec_def scanFrom_Some)

lemma matched_first:
  assumes "\<not> global (pattern r)"
  shows "length (matched r code) = (if occurs (alternatives (pattern r)) code then 1 else 0)"
proof (cases "exec (pattern r) code 0")
  case None
  with assms exec_None [of "pattern r" code 0] show ?thesis
    by (simp add: matched_def test_def)
next
  case (Some m)
  with assms exec_None [of "pattern r" code 0] show ?thesis
    by (cases m) (simp add: matched_def test_def match_def)
qed

lemma occurrencesFrom_Nil:
  "occurrencesFrom p code i [] \<longleftrightarrow> (\<forall>j. i \<le> j \<and> j \<le> length code \<longrightarrow> \<not> occursAt p code j)"
  by (auto simp add: list_all_iff)

lemma occurrencesFrom_Cons:
  "occurrencesFrom p code i ((k, n) # ms) \<longleftrightarrow>
     i \<le> k \<and> k \<le> length code \<and> 0 < n \<and>
     (\<forall>j. i \<le> j \<and> j < k \<longrightarrow> \<not> occursAt p code j) \<and>
     matchAlt p (drop k code) = Some n \<and> occurrencesFrom p code (k + n) ms"
  by (auto simp add: list_all_iff)

lemma matchAllLoop_occurrences:
  "occurrencesFrom p code i ms \<Longrightarrow> matchAllLoop p code i = ms"
proof (induction ms arbitrary: i)
  case Nil
  show ?case
  proof (cases "length code < i")
    case True
    then show ?thesis by (simp add: matchAllLoop.simps)
  next
    case False
    have "matchAlt p (drop j (drop i code)) = None" if "j \<le> length (drop i code)" for j
    proof -
      from that False have "i \<le> i + j \<and> i + j \<le> length code" by simp
      moreover from Nil have "\<forall>j. i \<le> j \<and> j \<le> length code \<longrightarrow> \<not> occursAt p code j"
        by (simp only: occurrencesFrom_Nil)
      ultimately have "\<not> occursAt p code (i + j)" by blast
      with that False show ?thesis by (simp add: occursAt_def add.commute)
    qed
    then have "scanFrom p (drop i code) i = None" by (simp only: scanFrom_None) simp
    with False show ?thesis by (simp add: matchAllLoop.simps)
  qed
next
  case (Cons m ms)
  obtain k n where m: "m = (k, n)" by (cases m)
  from Cons.prems m have "occurrencesFrom p code i ((k, n) # ms)" by simp
  then have h: "i \<le> k" "k \<le> length code" "0 < n"
    "\<forall>j. i \<le> j \<and> j < k \<longrightarrow> \<not> occursAt p code j" "matchAlt p (drop k code) = Some n"
    "occurrencesFrom p code (k + n) ms" unfolding occurrencesFrom_Cons by blast+
  have none: "\<forall>j' < k - i. matchAlt p (drop j' (drop i code)) = None"
  proof (intro allI impI)
    fix j' assume j: "j' < k - i"
    then have "i \<le> i + j' \<and> i + j' < k" by simp
    with h(4) have "\<not> occursAt p code (i + j')" by blast
    with j h(2) show "matchAlt p (drop j' (drop i code)) = None"
      by (simp add: occursAt_def add.commute)
  qed
  have "scanFrom p (drop i code) i = Some (k, n)"
    unfolding scanFrom_Some
  proof (intro exI [of _ "k - i"] conjI)
    show "k - i \<le> length (drop i code)" using h(1,2) by simp
    show "k = i + (k - i)" using h(1) by simp
    show "matchAlt p (drop (k - i) (drop i code)) = Some n" using h(1,5) by simp
    show "\<forall>j' < k - i. matchAlt p (drop j' (drop i code)) = None" by (rule none)
  qed
  moreover have "\<not> length code < i" using h(1,2) by simp
  moreover have "matchAllLoop p code (k + n) = ms" using h(6) by (rule Cons.IH)
  ultimately have "matchAllLoop p code i = (k, n) # ms"
    using h(3) by (subst matchAllLoop.simps) simp
  with m show ?case by simp
qed

lemma occurrences_matchAllLoop:
  "(\<And>s n. matchAlt p s = Some n \<Longrightarrow> 0 < n) \<Longrightarrow>
   occurrencesFrom p code i (matchAllLoop p code i)"
proof (induction p code i rule: matchAllLoop.induct)
  case (1 p code i)
  show ?case
  proof (cases "length code < i")
    case True
    then have "matchAllLoop p code i = []" by (simp add: matchAllLoop.simps)
    moreover from True have "occurrencesFrom p code i []" unfolding occurrencesFrom_Nil by auto
    ultimately show ?thesis by simp
  next
    case False
    show ?thesis
    proof (cases "scanFrom p (drop i code) i")
      case None
      then have a: "\<forall>j \<le> length (drop i code). matchAlt p (drop j (drop i code)) = None"
        by (simp only: scanFrom_None)
      have "\<not> occursAt p code j" if "i \<le> j" "j \<le> length code" for j
      proof -
        from that have "j - i \<le> length (drop i code)" by (simp add: diff_le_mono)
        with a have "matchAlt p (drop (j - i) (drop i code)) = None" by blast
        with that(1) show ?thesis by (simp add: occursAt_def)
      qed
      then have "occurrencesFrom p code i []" unfolding occurrencesFrom_Nil by blast
      with None False show ?thesis by (simp add: matchAllLoop.simps del: occurrencesFrom.simps)
    next
      case (Some m)
      obtain k n where m: "m = (k, n)" by (cases m)
      from Some m have s: "scanFrom p (drop i code) i = Some (k, n)" by simp
      then obtain j where j: "j \<le> length (drop i code)" "k = i + j"
        "matchAlt p (drop j (drop i code)) = Some n"
        "\<forall>j' < j. matchAlt p (drop j' (drop i code)) = None"
        unfolding scanFrom_Some by (elim exE conjE)
      from j(3) have n: "0 < n" by (rule "1.prems")
      from j(2) have k1: "i \<le> k" by simp
      from j(1,2) False have k2: "k \<le> length code" by simp
      note k = k1 k2
      from j(2,3) have mk: "matchAlt p (drop k code) = Some n" by (simp add: add.commute)
      have g: "\<forall>j'. i \<le> j' \<and> j' < k \<longrightarrow> \<not> occursAt p code j'"
      proof (intro allI impI)
        fix j' assume b: "i \<le> j' \<and> j' < k"
        with j(2) have "j' - i < j" by auto
        with j(4) have "matchAlt p (drop (j' - i) (drop i code)) = None" by blast
        with b show "\<not> occursAt p code j'" by (simp add: occursAt_def)
      qed
      have "occurrencesFrom p code (if n = 0 then Suc k else k + n)
              (matchAllLoop p code (if n = 0 then Suc k else k + n))"
        by (rule "1.IH" [OF False s refl]) (rule "1.prems")
      with n have "occurrencesFrom p code (k + n) (matchAllLoop p code (k + n))" by simp
      with n k mk g have "occurrencesFrom p code i ((k, n) # matchAllLoop p code (k + n))"
        unfolding occurrencesFrom_Cons by blast
      moreover from s False n have "matchAllLoop p code i = (k, n) # matchAllLoop p code (k + n)"
        by (subst matchAllLoop.simps) simp
      ultimately show ?thesis by simp
    qed
  qed
qed

lemma occurrencesFrom_member:
  "occurrencesFrom p code i ms \<Longrightarrow> (k, n) \<in> set ms \<Longrightarrow>
   k \<le> length code \<and> matchAlt p (drop k code) = Some n"
proof (induction ms arbitrary: i)
  case Nil
  then show ?case by simp
next
  case (Cons m ms)
  obtain k' n' where m: "m = (k', n')" by (cases m)
  from Cons.prems(1) m have "occurrencesFrom p code i ((k', n') # ms)" by simp
  then have h: "k' \<le> length code" "matchAlt p (drop k' code) = Some n'"
    "occurrencesFrom p code (k' + n') ms" unfolding occurrencesFrom_Cons by blast+
  from Cons.prems(2) m have "(k, n) = (k', n') \<or> (k, n) \<in> set ms" by simp
  then show ?case
  proof
    assume "(k, n) = (k', n')"
    with h show ?thesis by simp
  next
    assume "(k, n) \<in> set ms"
    with h(3) show ?thesis by (rule Cons.IH)
  qed
qed


section \<open>The rule tables and the issues of one rule\<close>

lemma javaRules_names:
  "map ruleName javaRules =
     [''naming-convention'', ''method-complexity'', ''unused-imports'', ''performance'']"
  by (simp add: javaRules_def)

lemma pythonRules_names:
  "map ruleName pythonRules = [''naming-convention'', ''import-style'', ''exception-handling'']"
  by (simp add: pythonRules_def)

lemma cppRules_names:
  "map ruleName cppRules =
     [''include-optimization'', ''namespace-pollution'', ''memory-management'']"
  by (simp add: cppRules_def)

lemma rulesFor_cases:
  "rulesFor language = javaRules \<or> rulesFor language = pythonRules \<or>
   rulesFor language = cppRules \<or> rulesFor language = []"
  by (simp add: rulesFor_def)

lemma rulesFor_names:
  "distinct (map ruleName (rulesFor language)) \<and>
   ''documentation'' \<notin> set (map ruleName (rulesFor language)) \<and>
   ''naming-clarity'' \<notin> set (map ruleName (rulesFor language))"
  using rulesFor_cases [of language]
  by (elim disjE) (simp_all add: javaRules_names pythonRules_names cppRules_names)

lemma rulesFor_java: "rulesFor (ustr ''java'') = javaRules"
  by (simp add: rulesFor_def)

lemma rulesFor_python: "rulesFor (ustr ''python'') = pythonRules"
  by (simp add: rulesFor_def ustr_def)

lemma rulesFor_cpp: "rulesFor (ustr ''cpp'') = cppRules"
  by (simp add: rulesFor_def ustr_def)

lemma matchSeq_literalStart:
  "literalStart a \<Longrightarrow> matchSeq a s = Some n \<Longrightarrow> s \<noteq> [] \<and> hd s \<noteq> newline \<and> 0 < n"
  by (induction a rule: literalStart.induct; cases s) (auto split: if_splits)

lemma matchAlt_literalStart:
  "list_all literalStart p \<Longrightarrow> matchAlt p s = Some n \<Longrightarrow> s \<noteq> [] \<and> hd s \<noteq> newline \<and> 0 < n"
proof (induction p)
  case Nil
  then show ?case by simp
next
  case (Cons a p)
  show ?case
  proof (cases "matchSeq a s")
    case None
    with Cons show ?thesis by simp
  next
    case (Some m)
    with Cons.prems have "literalStart a" "matchSeq a s = Some n" by simp_all
    then show ?thesis by (rule matchSeq_literalStart)
  qed
qed

lemma javaRules_literalStart:
  "list_all (\<lambda>r. list_all literalStart (alternatives (pattern r))) javaRules"
  by (simp add: javaRules_def literal_def unit_def newline_def)

lemma pythonRules_literalStart:
  "list_all (\<lambda>r. list_all literalStart (alternatives (pattern r))) pythonRules"
  by (simp add: pythonRules_def literal_def unit_def newline_def)

lemma cppRules_literalStart:
  "list_all (\<lambda>r. list_all literalStart (alternatives (pattern r))) cppRules"
  by (simp add: cppRules_def literal_def unit_def newline_def)

lemma rulesFor_literalStart:
  "r \<in> set (rulesFor language) \<Longrightarrow> list_all literalStart (alternatives (pattern r))"
  using rulesFor_cases [of language] javaRules_literalStart pythonRules_literalStart
    cppRules_literalStart
  by (elim disjE) (simp_all add: list_all_iff)

lemma pushed_rule: "i \<in> set (pushed R T r code ixs calls) \<Longrightarrow> rule i = ruleName r"
  by (induction ixs arbitrary: calls) (auto simp add: newIssue_def)

lemma pushed_filter:
  "filter (\<lambda>i. rule i = nm) (pushed R T r code ixs calls) =
     (if ruleName r = nm then pushed R T r code ixs calls else [])"
proof (cases "ruleName r = nm")
  case True
  then have "\<forall>i \<in> set (pushed R T r code ixs calls). rule i = nm"
    by (simp add: pushed_rule)
  with True show ?thesis by simp
next
  case False
  then have "\<forall>i \<in> set (pushed R T r code ixs calls). \<not> rule i = nm"
    by (simp add: pushed_rule)
  with False show ?thesis by simp
qed

lemma catalog_filter_none:
  "nm \<notin> set (map ruleName rs) \<Longrightarrow> filter (\<lambda>i. rule i = nm) (catalog R T code rs calls) = []"
  by (induction rs arbitrary: calls) (auto simp add: pushed_filter)

lemma catalog_filter:
  "distinct (map ruleName rs) \<Longrightarrow> r \<in> set rs \<Longrightarrow>
   \<exists>calls'. filter (\<lambda>i. rule i = ruleName r) (catalog R T code rs calls) =
     pushed R T r code (matched r code) calls'"
proof (induction rs arbitrary: calls)
  case Nil
  then show ?case by simp
next
  case (Cons r' rs)
  show ?case
  proof (cases "r = r'")
    case True
    with Cons.prems have "ruleName r \<notin> set (map ruleName rs)" by simp
    from catalog_filter_none [OF this] True show ?thesis
      by (intro exI [of _ calls]) (simp add: pushed_filter)
  next
    case False
    with Cons.prems have m: "r \<in> set rs" and d: "distinct (map ruleName rs)"
      and n: "ruleName r' \<noteq> ruleName r" by auto
    from Cons.IH [OF d m, of "calls + length (matched r' code)"] n show ?thesis
      by (simp add: pushed_filter)
  qed
qed

lemma pushed_line_eq:
  "map line (pushed R T r code (map (\<lambda>m. Some (fst m)) ms) calls) =
     map (\<lambda>m. 1 + int (lineBreaksBefore code (fst m))) ms"
  by (induction ms arbitrary: calls)
     (simp_all add: newIssue_def substring0_def length_split lineBreaksBefore_def)

lemma additionalIssues_filter:
  "nm \<noteq> ''documentation'' \<Longrightarrow> nm \<noteq> ''naming-clarity'' \<Longrightarrow>
   filter (\<lambda>i. rule i = nm) (additionalIssues R T ls calls) = []"
  by (simp add: additionalIssues_def)

lemma issues_of_rule:
  assumes "r \<in> set (rulesFor language)"
  shows "\<exists>res calls'. analyzeCode R T code language = Inr res \<and>
     filter (\<lambda>i. rule i = ruleName r) (issues res) = pushed R T r code (matched r code) calls'"
proof -
  from analyzeCode_result [of R T code language] obtain res where
    r: "analyzeCode R T code language = Inr res" and
    i: "issues res = catalog R T code (rulesFor language) 0 @
           additionalIssues R T (split newline code) (length (catalog R T code (rulesFor language) 0))"
    by (elim exE conjE)
  from rulesFor_names [of language] have d: "distinct (map ruleName (rulesFor language))"
    and n1: "''documentation'' \<notin> set (map ruleName (rulesFor language))"
    and n2: "''naming-clarity'' \<notin> set (map ruleName (rulesFor language))" by simp_all
  from assms have "ruleName r \<in> set (map ruleName (rulesFor language))" by simp
  with n1 n2 have "ruleName r \<noteq> ''documentation''" "ruleName r \<noteq> ''naming-clarity''"
    by metis+
  from additionalIssues_filter [OF this]
  have a: "filter (\<lambda>i. rule i = ruleName r)
     (additionalIssues R T (split newline code) (length (catalog R T code (rulesFor language) 0))) = []" .
  from catalog_filter [OF d assms, of R T code 0] obtain calls' where
    "filter (\<lambda>i. rule i = ruleName r) (catalog R T code (rulesFor language) 0) =
       pushed R T r code (matched r code) calls'" by (elim exE)
  with i a have "filter (\<lambda>i. rule i = ruleName r) (issues res) =
       pushed R T r code (matched r code) calls'" by simp
  with r show ?thesis by (intro exI [of _ res] exI [of _ calls'] conjI)
qed

lemma catalog_member:
  "i \<in> set (catalog R T code rs calls) \<Longrightarrow>
   \<exists>r calls'. r \<in> set rs \<and> i \<in> set (pushed R T r code (matched r code) calls')"
proof (induction rs arbitrary: calls)
  case Nil
  then show ?case by simp
next
  case (Cons a rs)
  from Cons.prems have "i \<in> set (pushed R T a code (matched a code) calls) \<or>
      i \<in> set (catalog R T code rs (calls + length (matched a code)))" by simp
  then show ?case
  proof
    assume "i \<in> set (pushed R T a code (matched a code) calls)"
    then show ?thesis by (intro exI [of _ a] exI [of _ calls]) simp
  next
    assume "i \<in> set (catalog R T code rs (calls + length (matched a code)))"
    from Cons.IH [OF this] obtain r calls' where "r \<in> set rs"
      "i \<in> set (pushed R T r code (matched r code) calls')" by (elim exE conjE)
    then show ?thesis by (intro exI [of _ r] exI [of _ calls']) simp
  qed
qed

lemma matched_sound:
  assumes "list_all literalStart (alternatives (pattern r))" "ix \<in> set (matched r code)"
  shows "\<exists>k n. ix = Some k \<and> k < length code \<and> code ! k \<noteq> newline \<and>
     matchAlt (alternatives (pattern r)) (drop k code) = Some n"
proof -
  define p where "p = alternatives (pattern r)"
  have pos: "\<And>s n. matchAlt p s = Some n \<Longrightarrow> 0 < n"
    using assms(1) by (simp add: matchAlt_literalStart p_def)
  have "\<exists>k n. ix = Some k \<and> k \<le> length code \<and> matchAlt p (drop k code) = Some n"
  proof (cases "global (pattern r)")
    case True
    with assms(2) obtain m where m: "m \<in> set (matchAllLoop p code 0)" "ix = Some (fst m)"
      by (auto simp add: matched_def p_def)
    obtain k n where kn: "m = (k, n)" by (cases m)
    have o: "occurrencesFrom p code 0 (matchAllLoop p code 0)"
      by (rule occurrences_matchAllLoop) (rule pos)
    from m(1) kn have "(k, n) \<in> set (matchAllLoop p code 0)" by simp
    with o have "k \<le> length code \<and> matchAlt p (drop k code) = Some n"
      by (rule occurrencesFrom_member)
    with m(2) kn show ?thesis by simp
  next
    case False
    show ?thesis
    proof (cases "exec (pattern r) code 0")
      case None
      with False assms(2) show ?thesis by (simp add: matched_def test_def)
    next
      case (Some m)
      obtain k n where kn: "m = (k, n)" by (cases m)
      from Some kn False assms(2) have "ix = Some k"
        by (simp add: matched_def test_def match_def)
      moreover from exec_Some [OF False, of code 0 k n] Some kn
      have "k \<le> length code \<and> matchAlt p (drop k code) = Some n" by (simp add: p_def)
      ultimately show ?thesis by simp
    qed
  qed
  then obtain k n where k: "ix = Some k" "k \<le> length code" "matchAlt p (drop k code) = Some n"
    by (elim exE conjE)
  have "list_all literalStart p" using assms(1) by (simp only: p_def)
  from matchAlt_literalStart [OF this k(3)]
  have d: "drop k code \<noteq> []" "hd (drop k code) \<noteq> newline" by blast+
  from d(1) have "k < length code" by simp
  with d(2) have "k < length code \<and> code ! k \<noteq> newline" by (simp add: hd_drop_conv_nth)
  with k show ?thesis unfolding p_def by simp
qed


section \<open>First-match rules\<close>

text \<open>
  Claim C4: for every rule whose pattern is not global, a source text in which the pattern
  occurs at least once (be it five times) gives exactly one issue with the name of the rule,
  and a text in which it never occurs gives none.
\<close>

theorem first_match_rule:
  assumes "r \<in> set (rulesFor language)" "\<not> global (pattern r)"
  shows "\<exists>res. analyzeCode R T code language = Inr res \<and>
     length (filter (\<lambda>i. rule i = ruleName r) (issues res)) =
       (if occurs (alternatives (pattern r)) code then 1 else 0)"
proof -
  from issues_of_rule [OF assms(1), of R T code] obtain res calls' where
    r: "analyzeCode R T code language = Inr res" and
    f: "filter (\<lambda>i. rule i = ruleName r) (issues res) = pushed R T r code (matched r code) calls'"
    by (elim exE conjE)
  from f have "length (filter (\<lambda>i. rule i = ruleName r) (issues res)) = length (matched r code)"
    by simp
  with matched_first [OF assms(2), of code] r show ?thesis
    by (intro exI [of _ res] conjI) simp_all
qed

theorem first_match_rule_witness:
  "pythonRules ! 2 \<in> set (rulesFor (ustr ''python'')) \<and>
   \<not> global (pattern (pythonRules ! 2)) \<and>
   ruleName (pythonRules ! 2) = ''exception-handling'' \<and>
   occurs (alternatives (pattern (pythonRules ! 2)))
     (ustr ''except: except: except: except: except:'') \<and>
   (\<exists>res. analyzeCode fixedRandom fixedString
            (ustr ''except: except: except: except: except:'') (ustr ''python'') = Inr res \<and>
      length (filter (\<lambda>i. rule i = ''exception-handling'') (issues res)) = 1)"
proof -
  have a: "pythonRules ! 2 \<in> set (rulesFor (ustr ''python''))"
    by (simp add: rulesFor_python) (simp add: pythonRules_def)
  have b: "\<not> global (pattern (pythonRules ! 2))" by (simp add: pythonRules_def)
  have c: "ruleName (pythonRules ! 2) = ''exception-handling''" by (simp add: pythonRules_def)
  have d: "occurs (alternatives (pattern (pythonRules ! 2)))
     (ustr ''except: except: except: except: except:'')" by code_simp
  from first_match_rule [OF a b, of fixedRandom fixedString
      "ustr ''except: except: except: except: except:''"] c d
  have "\<exists>res. analyzeCode fixedRandom fixedString
            (ustr ''except: except: except: except: except:'') (ustr ''python'') = Inr res \<and>
      length (filter (\<lambda>i. rule i = ''exception-handling'') (issues res)) = 1"
    by simp
  with a b c d show ?thesis by (intro conjI)
qed


section \<open>Find-all rules\<close>

text \<open>
  Claim C3: for every rule whose pattern is global (the rules \<open>unused-imports\<close> and
  \<open>include-optimization\<close>), a source text has exactly one list of non-overlapping
  occurrences of the pattern, say \<open>N\<close> of them, and the result has exactly \<open>N\<close> issues with
  the name of the rule, one for each occurrence, on the line of the occurrence.
\<close>

theorem find_all_rule:
  assumes "r \<in> set (rulesFor language)" "global (pattern r)"
  shows "\<exists>res ms. analyzeCode R T code language = Inr res \<and>
     occurrencesFrom (alternatives (pattern r)) code 0 ms \<and>
     (\<forall>ms'. occurrencesFrom (alternatives (pattern r)) code 0 ms' \<longrightarrow> ms' = ms) \<and>
     length (filter (\<lambda>i. rule i = ruleName r) (issues res)) = length ms \<and>
     map line (filter (\<lambda>i. rule i = ruleName r) (issues res)) =
       map (\<lambda>m. 1 + int (lineBreaksBefore code (fst m))) ms"
proof -
  define p where "p = alternatives (pattern r)"
  define ms where "ms = matchAllLoop p code 0"
  from issues_of_rule [OF assms(1), of R T code] obtain res calls' where
    r: "analyzeCode R T code language = Inr res" and
    f: "filter (\<lambda>i. rule i = ruleName r) (issues res) = pushed R T r code (matched r code) calls'"
    by (elim exE conjE)
  from assms(2) have m: "matched r code = map (\<lambda>m. Some (fst m)) ms"
    by (simp add: matched_def ms_def p_def)
  have "list_all literalStart p" unfolding p_def using assms(1) by (rule rulesFor_literalStart)
  then have "\<And>s n. matchAlt p s = Some n \<Longrightarrow> 0 < n" by (simp add: matchAlt_literalStart)
  then have o: "occurrencesFrom p code 0 ms" unfolding ms_def by (rule occurrences_matchAllLoop)
  have u: "\<forall>ms'. occurrencesFrom p code 0 ms' \<longrightarrow> ms' = ms"
    unfolding ms_def by (simp add: matchAllLoop_occurrences)
  from f m have l: "length (filter (\<lambda>i. rule i = ruleName r) (issues res)) = length ms" by simp
  from f m have n: "map line (filter (\<lambda>i. rule i = ruleName r) (issues res)) =
       map (\<lambda>m. 1 + int (lineBreaksBefore code (fst m))) ms"
    by (simp only: pushed_line_eq)
  from r o u l n show ?thesis unfolding p_def by (intro exI [of _ res] exI [of _ ms] conjI)
qed

theorem find_all_rule_witness:
  "javaRules ! 2 \<in> set (rulesFor (ustr ''java'')) \<and>
   global (pattern (javaRules ! 2)) \<and>
   ruleName (javaRules ! 2) = ''unused-imports'' \<and>
   occurrencesFrom (alternatives (pattern (javaRules ! 2)))
     (ustr ''import a;import b;import c;'') 0 [(0, 9), (9, 9), (18, 9)] \<and>
   (\<exists>res. analyzeCode fixedRandom fixedString (ustr ''import a;import b;import c;'')
            (ustr ''java'') = Inr res \<and>
      length (filter (\<lambda>i. rule i = ''unused-imports'') (issues res)) = 3)"
proof -
  have a: "javaRules ! 2 \<in> set (rulesFor (ustr ''java''))"
    by (simp add: rulesFor_java) (simp add: javaRules_def)
  have b: "global (pattern (javaRules ! 2))" by (simp add: javaRules_def)
  have c: "ruleName (javaRules ! 2) = ''unused-imports''" by (simp add: javaRules_def)
  have d: "occurrencesFrom (alternatives (pattern (javaRules ! 2)))
     (ustr ''import a;import b;import c;'') 0 [(0, 9), (9, 9), (18, 9)]" by code_simp
  from find_all_rule [OF a b, of fixedRandom fixedString "ustr ''import a;import b;import c;''"]
  obtain res ms where
    r: "analyzeCode fixedRandom fixedString (ustr ''import a;import b;import c;'')
            (ustr ''java'') = Inr res" and
    u: "\<forall>ms'. occurrencesFrom (alternatives (pattern (javaRules ! 2)))
            (ustr ''import a;import b;import c;'') 0 ms' \<longrightarrow> ms' = ms" and
    l: "length (filter (\<lambda>i. rule i = ruleName (javaRules ! 2)) (issues res)) = length ms"
    by (elim exE conjE)
  from u d have "ms = [(0, 9), (9, 9), (18, 9)]" by metis
  with l c have "length (filter (\<lambda>i. rule i = ''unused-imports'') (issues res)) = 3" by simp
  with r have "\<exists>res. analyzeCode fixedRandom fixedString (ustr ''import a;import b;import c;'')
            (ustr ''java'') = Inr res \<and>
      length (filter (\<lambda>i. rule i = ''unused-imports'') (issues res)) = 3"
    by (intro exI [of _ res] conjI)
  with a b c d show ?thesis by (intro conjI)
qed


section \<open>Line and column of an issue\<close>

lemma lastIndexOf_precedingBreak: "lastIndexOf code newline k = precedingBreak code (Suc k)"
  by (induction k) (auto simp add: neq_Nil_conv)

lemma newIssue_position:
  assumes "k < length code" "code ! k \<noteq> newline"
  shows "rule (newIssue r code (Some k) ident) = ruleName r \<and>
     line (newIssue r code (Some k) ident) = 1 + int (lineBreaksBefore code k) \<and>
     column (newIssue r code (Some k) ident) =
       (if k = 0 then 0 else int k - precedingBreak code k)"
  using assms
  by (simp add: newIssue_def substring0_def length_split lineBreaksBefore_def
      lastIndexOf_precedingBreak)


lemma firstOccurrence_Nil: "firstOccurrence p code [] \<longleftrightarrow> scanFrom p code 0 = None"
  by (auto simp add: scanFrom_None occurs_def occursAt_def list_ex_iff less_Suc_eq_le)

lemma firstOccurrence_single:
  "firstOccurrence p code [(k, n)] \<longleftrightarrow> scanFrom p code 0 = Some (k, n)"
proof -
  have "scanFrom p code 0 = Some (k, n) \<longleftrightarrow>
     k \<le> length code \<and> matchAlt p (drop k code) = Some n \<and>
     (\<forall>j < k. matchAlt p (drop j code) = None)"
    unfolding scanFrom_Some by auto
  moreover have "k \<le> length code \<Longrightarrow>
     list_all (\<lambda>j. \<not> occursAt p code j) [0..<k] \<longleftrightarrow> (\<forall>j < k. matchAlt p (drop j code) = None)"
    by (auto simp add: list_all_iff occursAt_def)
  ultimately show ?thesis by auto
qed

lemma firstOccurrence_scan:
  "firstOccurrence p code ms \<longleftrightarrow>
     ms = (case scanFrom p code 0 of None \<Rightarrow> [] | Some m \<Rightarrow> [m])"
proof (cases ms)
  case Nil
  then show ?thesis by (simp only: firstOccurrence_Nil) (simp split: option.split)
next
  case (Cons m ms')
  obtain k n where m: "m = (k, n)" by (cases m)
  show ?thesis
  proof (cases ms')
    case Nil
    with Cons m show ?thesis by (simp only: firstOccurrence_single) (auto split: option.split)
  next
    case (Cons m' ms'')
    with \<open>ms = m # ms'\<close> show ?thesis by (simp split: option.split)
  qed
qed

lemma ruleMatches_scanned:
  assumes "list_all literalStart (alternatives (pattern r))"
  shows "ruleMatches r code ms \<longleftrightarrow> ms = scanned r code"
proof (cases "global (pattern r)")
  case True
  have pos: "\<And>s n. matchAlt (alternatives (pattern r)) s = Some n \<Longrightarrow> 0 < n"
    using assms by (simp add: matchAlt_literalStart)
  have o: "occurrencesFrom (alternatives (pattern r)) code 0
          (matchAllLoop (alternatives (pattern r)) code 0)"
    by (rule occurrences_matchAllLoop) (rule pos)
  have "occurrencesFrom (alternatives (pattern r)) code 0 ms \<longleftrightarrow>
        ms = matchAllLoop (alternatives (pattern r)) code 0"
  proof
    assume "occurrencesFrom (alternatives (pattern r)) code 0 ms"
    then show "ms = matchAllLoop (alternatives (pattern r)) code 0"
      by (rule matchAllLoop_occurrences [symmetric])
  next
    assume "ms = matchAllLoop (alternatives (pattern r)) code 0"
    with o show "occurrencesFrom (alternatives (pattern r)) code 0 ms" by simp
  qed
  with True show ?thesis by (simp add: ruleMatches_def scanned_def)
next
  case False
  then show ?thesis by (simp add: ruleMatches_def scanned_def firstOccurrence_scan)
qed

lemma matched_scanned: "matched r code = map (\<lambda>m. Some (fst m)) (scanned r code)"
proof (cases "global (pattern r)")
  case True
  then show ?thesis by (simp add: matched_def scanned_def)
next
  case False
  show ?thesis
  proof (cases "scanFrom (alternatives (pattern r)) code 0")
    case None
    with False show ?thesis by (simp add: matched_def scanned_def test_def exec_def)
  next
    case (Some m)
    with False show ?thesis
      by (cases m) (simp add: matched_def scanned_def test_def exec_def match_def)
  qed
qed

lemma pushed_position:
  "(\<And>m. m \<in> set ms \<Longrightarrow> fst m < length code \<and> code ! fst m \<noteq> newline) \<Longrightarrow>
   map (\<lambda>i. (line i, column i)) (pushed R T r code (map (\<lambda>m. Some (fst m)) ms) calls) =
     map (\<lambda>m. positionAt code (fst m)) ms"
proof (induction ms arbitrary: calls)
  case Nil
  show ?case by simp
next
  case (Cons m ms)
  have "fst m < length code \<and> code ! fst m \<noteq> newline" by (rule Cons.prems) simp
  then have h: "fst m < length code" "code ! fst m \<noteq> newline" by simp_all
  have t: "map (\<lambda>i. (line i, column i)) (pushed R T r code (map (\<lambda>m. Some (fst m)) ms) (Suc calls)) =
     map (\<lambda>m. positionAt code (fst m)) ms"
    by (rule Cons.IH) (rule Cons.prems, simp)
  from newIssue_position [OF h, of r "generateRandomId T (R calls)"] t
  show ?case by (simp add: positionAt_def)
qed

lemma catalog_rule:
  assumes "i \<in> set (catalog R T code rs calls)"
  shows "\<exists>r \<in> set rs. rule i = ruleName r"
proof -
  from catalog_member [OF assms] obtain r calls' where
    r: "r \<in> set rs" and p: "i \<in> set (pushed R T r code (matched r code) calls')"
    by (elim exE conjE)
  from p have "rule i = ruleName r" by (rule pushed_rule)
  with r show ?thesis by (intro bexI [of _ r])
qed

lemma rule_positions:
  assumes "r \<in> set (rulesFor language)"
  shows "\<exists>ms. ruleMatches r code ms \<and> (\<forall>ms'. ruleMatches r code ms' \<longrightarrow> ms' = ms) \<and>
     map (\<lambda>i. (line i, column i))
       (filter (\<lambda>i. rule i = ruleName r) (catalog R T code (rulesFor language) 0)) =
     map (\<lambda>m. positionAt code (fst m)) ms"
proof -
  define ms where "ms = scanned r code"
  from assms have l: "list_all literalStart (alternatives (pattern r))"
    by (rule rulesFor_literalStart)
  from ruleMatches_scanned [OF l, of code] have m: "ruleMatches r code ms"
    and u: "\<forall>ms'. ruleMatches r code ms' \<longrightarrow> ms' = ms" by (simp_all add: ms_def)
  from rulesFor_names [of language] have d: "distinct (map ruleName (rulesFor language))" by simp
  from catalog_filter [OF d assms, of R T code 0] obtain calls' where
    f: "filter (\<lambda>i. rule i = ruleName r) (catalog R T code (rulesFor language) 0) =
       pushed R T r code (matched r code) calls'" by (elim exE)
  have s: "fst m < length code \<and> code ! fst m \<noteq> newline" if "m \<in> set ms" for m
  proof -
    from that have "Some (fst m) \<in> set (matched r code)"
      by (simp add: matched_scanned ms_def)
    from matched_sound [OF l this] show ?thesis by auto
  qed
  have "map (\<lambda>i. (line i, column i)) (pushed R T r code (map (\<lambda>m. Some (fst m)) ms) calls') =
     map (\<lambda>m. positionAt code (fst m)) ms"
    by (rule pushed_position) (rule s)
  with f have "map (\<lambda>i. (line i, column i))
       (filter (\<lambda>i. rule i = ruleName r) (catalog R T code (rulesFor language) 0)) =
     map (\<lambda>m. positionAt code (fst m)) ms"
    by (simp add: matched_scanned ms_def)
  with m u show ?thesis by (intro exI [of _ ms] conjI)
qed

text \<open>
  Claim C1, as the specification states it: the column of an issue of the rule loop is 0
  when the match begins before any line break of the text. The text \<open>" class a"\<close> has no
  line break, the class-name rule matches at offset 1, and the column of its issue is 2.
\<close>

theorem column_counterexample:
  "forEachRule fixedRandom fixedString (ustr '' class a'') (rulesFor (ustr ''java'')) ([], 0) =
     Inr ([\<lparr>issueId = ustr ''i'', issueType = Warning, line = 1, column = 2,
            message = ''Class names should start with uppercase letter'',
            rule = ''naming-convention'', severity = Medium\<rparr>], 1) \<and>
   matchAlt (alternatives (pattern (javaRules ! 0))) (drop 1 (ustr '' class a'')) = Some 7 \<and>
   newline \<notin> set (ustr '' class a'')"
  by code_simp


text \<open>
  Claim C1, amended: every issue of the rule loop carries the name of a rule of the
  language, and for every rule the issues with its name are, in order, one for each match
  the loop takes for the rule (every non-overlapping occurrence of a global pattern, the
  leftmost occurrence of another one). The issue of the match that starts at offset \<open>k\<close>
  has as line 1 plus the number of line breaks before \<open>k\<close>, and as column 0 when \<open>k = 0\<close>
  and otherwise \<open>k\<close> minus the offset of the nearest line break before \<open>k\<close>, that offset
  taken as \<open>-1\<close> when no line break precedes. So a match at the start of a later line
  has column 1, and a match at offset \<open>k > 0\<close> of the first line has column \<open>k + 1\<close>.
\<close>

theorem issue_position:
  assumes "forEachRule R T code (rulesFor language) ([], 0) = Inr (found, calls)"
  shows "(\<forall>i \<in> set found. \<exists>r \<in> set (rulesFor language). rule i = ruleName r) \<and>
     (\<forall>r \<in> set (rulesFor language).
        \<exists>ms. ruleMatches r code ms \<and> (\<forall>ms'. ruleMatches r code ms' \<longrightarrow> ms' = ms) \<and>
          map (\<lambda>i. (line i, column i)) (filter (\<lambda>i. rule i = ruleName r) found) =
          map (\<lambda>m. positionAt code (fst m)) ms)"
proof -
  from assms have f: "found = catalog R T code (rulesFor language) 0"
    by (simp add: forEachRule_eq)
  have a: "\<forall>i \<in> set found. \<exists>r \<in> set (rulesFor language). rule i = ruleName r"
    unfolding f by (intro ballI) (rule catalog_rule)
  have b: "\<forall>r \<in> set (rulesFor language).
        \<exists>ms. ruleMatches r code ms \<and> (\<forall>ms'. ruleMatches r code ms' \<longrightarrow> ms' = ms) \<and>
          map (\<lambda>i. (line i, column i)) (filter (\<lambda>i. rule i = ruleName r) found) =
          map (\<lambda>m. positionAt code (fst m)) ms"
    unfolding f by (intro ballI) (rule rule_positions)
  from a b show ?thesis by (intro conjI)
qed

lemma eval_two_imports:
  "forEachRule fixedRandom fixedString (ustr (''import a;'' @ [CHR 0x0A] @ ''import b;''))
     (rulesFor (ustr ''java'')) ([], 0) =
   Inr ([\<lparr>issueId = ustr ''i'', issueType = Suggestion, line = 1, column = 0,
          message = ''Remove unused imports to improve code clarity'',
          rule = ''unused-imports'', severity = Low\<rparr>,
         \<lparr>issueId = ustr ''i'', issueType = Suggestion, line = 2, column = 1,
          message = ''Remove unused imports to improve code clarity'',
          rule = ''unused-imports'', severity = Low\<rparr>], 2)"
  by code_simp

lemma eval_two_imports_matches:
  "ruleMatches (javaRules ! 2) (ustr (''import a;'' @ [CHR 0x0A] @ ''import b;''))
     [(0, 9), (10, 9)] \<and>
   map (\<lambda>m. positionAt (ustr (''import a;'' @ [CHR 0x0A] @ ''import b;'')) (fst m))
     [(0, 9), (10, 9)] = [(1, 0), (2, 1)]"
  by code_simp

theorem issue_position_witness:
  "forEachRule fixedRandom fixedString (ustr (''import a;'' @ [CHR 0x0A] @ ''import b;''))
     (rulesFor (ustr ''java'')) ([], 0) =
   Inr ([\<lparr>issueId = ustr ''i'', issueType = Suggestion, line = 1, column = 0,
          message = ''Remove unused imports to improve code clarity'',
          rule = ''unused-imports'', severity = Low\<rparr>,
         \<lparr>issueId = ustr ''i'', issueType = Suggestion, line = 2, column = 1,
          message = ''Remove unused imports to improve code clarity'',
          rule = ''unused-imports'', severity = Low\<rparr>], 2) \<and>
   (\<exists>ms. ruleMatches (javaRules ! 2) (ustr (''import a;'' @ [CHR 0x0A] @ ''import b;'')) ms \<and>
      ms = [(0, 9), (10, 9)] \<and>
      map (\<lambda>i. (line i, column i))
        (filter (\<lambda>i. rule i = ''unused-imports'')
           [\<lparr>issueId = ustr ''i'', issueType = Suggestion, line = 1, column = 0,
             message = ''Remove unused imports to improve code clarity'',
             rule = ''unused-imports'', severity = Low\<rparr>,
            \<lparr>issueId = ustr ''i'', issueType = Suggestion, line = 2, column = 1,
             message = ''Remove unused imports to improve code clarity'',
             rule = ''unused-imports'', severity = Low\<rparr>]) =
      map (\<lambda>m. positionAt (ustr (''import a;'' @ [CHR 0x0A] @ ''import b;'')) (fst m)) ms) \<and>
   map (\<lambda>m. positionAt (ustr (''import a;'' @ [CHR 0x0A] @ ''import b;'')) (fst m))
     [(0, 9), (10, 9)] = [(1, 0), (2, 1)]"
proof -
  define code where "code = ustr (''import a;'' @ [CHR 0x0A] @ ''import b;'')"
  define found where "found =
     [\<lparr>issueId = ustr ''i'', issueType = Suggestion, line = 1, column = 0,
       message = ''Remove unused imports to improve code clarity'',
       rule = ''unused-imports'', severity = Low\<rparr>,
      \<lparr>issueId = ustr ''i'', issueType = Suggestion, line = 2, column = 1,
       message = ''Remove unused imports to improve code clarity'',
       rule = ''unused-imports'', severity = Low\<rparr>]"
  have e: "forEachRule fixedRandom fixedString code (rulesFor (ustr ''java'')) ([], 0) =
     Inr (found, 2)"
    unfolding code_def found_def by (rule eval_two_imports)
  have m: "ruleMatches (javaRules ! 2) code [(0, 9), (10, 9)]"
    and p: "map (\<lambda>m. positionAt code (fst m)) [(0, 9), (10, 9)] = [(1, 0), (2, 1)]"
    unfolding code_def using eval_two_imports_matches by simp_all
  have r: "javaRules ! 2 \<in> set (rulesFor (ustr ''java''))"
    by (simp add: rulesFor_java) (simp add: javaRules_def)
  have n: "ruleName (javaRules ! 2) = ''unused-imports''" by (simp add: javaRules_def)
  from issue_position [OF e]
  have "\<forall>r \<in> set (rulesFor (ustr ''java'')).
        \<exists>ms. ruleMatches r code ms \<and> (\<forall>ms'. ruleMatches r code ms' \<longrightarrow> ms' = ms) \<and>
          map (\<lambda>i. (line i, column i)) (filter (\<lambda>i. rule i = ruleName r) found) =
          map (\<lambda>m. positionAt code (fst m)) ms"
    by (rule conjunct2)
  from this r
  have "\<exists>ms. ruleMatches (javaRules ! 2) code ms \<and>
          (\<forall>ms'. ruleMatches (javaRules ! 2) code ms' \<longrightarrow> ms' = ms) \<and>
          map (\<lambda>i. (line i, column i)) (filter (\<lambda>i. rule i = ruleName (javaRules ! 2)) found) =
          map (\<lambda>m. positionAt code (fst m)) ms"
    by (rule bspec)
  then obtain ms where
    u: "\<forall>ms'. ruleMatches (javaRules ! 2) code ms' \<longrightarrow> ms' = ms" and
    q: "map (\<lambda>i. (line i, column i)) (filter (\<lambda>i. rule i = ruleName (javaRules ! 2)) found) =
        map (\<lambda>m. positionAt code (fst m)) ms"
    by (elim exE conjE)
  from u have "ruleMatches (javaRules ! 2) code [(0, 9), (10, 9)] \<longrightarrow> [(0, 9), (10, 9)] = ms"
    by (rule spec)
  from this m have ms: "[(0, 9), (10, 9)] = ms" by (rule mp)
  from q have q': "map (\<lambda>i. (line i, column i)) (filter (\<lambda>i. rule i = ''unused-imports'') found) =
        map (\<lambda>m. positionAt code (fst m)) ms" by (simp only: n)
  from m ms q' have "\<exists>ms. ruleMatches (javaRules ! 2) code ms \<and> ms = [(0, 9), (10, 9)] \<and>
      map (\<lambda>i. (line i, column i)) (filter (\<lambda>i. rule i = ''unused-imports'') found) =
      map (\<lambda>m. positionAt code (fst m)) ms"
    by (intro exI [of _ ms] conjI) (simp_all only:)
  with e p show ?thesis unfolding code_def found_def by (intro conjI)
qed

end
